theory Spec2Isabelle
  imports Complex_Main "HOL-Library.Sublist"
begin

section \<open>JavaScript strings and values\<close>

text \<open>
  A JavaScript string is a sequence of UTF-16 code units; a code unit is modelled by its
  number. \<open>str\<close> turns an ASCII literal into such a sequence.  String search,
  slicing and trimming are the library's \<^verbatim>\<open>indexOf\<close>, \<^verbatim>\<open>lastIndexOf\<close>,
  \<^verbatim>\<open>slice\<close> and \<^verbatim>\<open>trim\<close>; a search that finds nothing (the library's -1) is
  \<open>None\<close>.
\<close>

type_synonym jsstring = "nat list"

definition str :: "string \<Rightarrow> jsstring" where
  "str s = map of_char s"

text \<open>White space and line terminators, as \<^verbatim>\<open>trim\<close> and the regular expression class
  \<^verbatim>\<open>\s\<close> read them.\<close>

definition isSpace :: "nat \<Rightarrow> bool" where
  "isSpace u \<longleftrightarrow>
     u = 9 \<or> u = 10 \<or> u = 11 \<or> u = 12 \<or> u = 13 \<or> u = 32 \<or> u = 160 \<or> u = 5760 \<or>
     (8192 \<le> u \<and> u \<le> 8202) \<or> u = 8232 \<or> u = 8233 \<or> u = 8239 \<or> u = 8287 \<or>
     u = 12288 \<or> u = 65279"

definition trim :: "jsstring \<Rightarrow> jsstring" where
  "trim s = rev (dropWhile isSpace (rev (dropWhile isSpace s)))"

definition startsWith :: "'a list \<Rightarrow> 'a list \<Rightarrow> bool" where
  "startsWith pat s \<longleftrightarrow> take (length pat) s = pat"

fun indexFrom :: "'a list \<Rightarrow> 'a list \<Rightarrow> nat \<Rightarrow> nat option" where
  "indexFrom pat [] i = (if pat = [] then Some i else None)"
| "indexFrom pat (c # cs) i =
     (if startsWith pat (c # cs) then Some i else indexFrom pat cs (Suc i))"

definition indexOf :: "'a list \<Rightarrow> 'a list \<Rightarrow> nat option" where
  "indexOf pat s = indexFrom pat s 0"

fun lastIndexFrom :: "'a list \<Rightarrow> 'a list \<Rightarrow> nat \<Rightarrow> nat option" where
  "lastIndexFrom pat [] i = (if pat = [] then Some i else None)"
| "lastIndexFrom pat (c # cs) i =
     (case lastIndexFrom pat cs (Suc i) of
        Some j \<Rightarrow> Some j
      | None \<Rightarrow> if startsWith pat (c # cs) then Some i else None)"

definition lastIndexOf :: "'a list \<Rightarrow> 'a list \<Rightarrow> nat option" where
  "lastIndexOf pat s = lastIndexFrom pat s 0"

text \<open>\<^verbatim>\<open>s.slice(a, b)\<close> for indices that are not negative: empty when \<open>b \<le> a\<close>,
  clipped at the end of the string.\<close>

definition slice :: "'a list \<Rightarrow> nat \<Rightarrow> nat \<Rightarrow> 'a list" where
  "slice s a b = take (b - a) (drop a s)"

text \<open>\<^verbatim>\<open>xs.slice(0, n)\<close> for any integer \<open>n\<close>: a negative \<open>n\<close> counts from the end.\<close>

definition sliceTo :: "'a list \<Rightarrow> int \<Rightarrow> 'a list" where
  "sliceTo xs n = (if n < 0 then take (length xs - nat (- n)) xs else take (nat n) xs)"

text \<open>
  The values the code handles are what \<^verbatim>\<open>JSON.parse\<close> produces, and \<^verbatim>\<open>undefined\<close>
  for a property that is absent. A number is modelled by its real value. The
  \<^verbatim>\<open>Infinity\<close> that \<^verbatim>\<open>JSON.parse\<close> makes of a literal beyond the range of a
  double is modelled by a value beyond that range: the code tests numbers for their
  type and their truth, compares them with 0 and 3, takes them as indices and formats
  them, and there an infinity behaves as such a value does. An object is the list of
  its own properties; \<^verbatim>\<open>JSON.parse\<close> builds objects whose keys are distinct.
\<close>

datatype jsval =
    JUndefined
  | JNull
  | JBool bool
  | JNum real
  | JStr jsstring
  | JArr "jsval list"
  | JObj "(string \<times> jsval) list"

datatype error =
    TypeError
  | FailedToParse "jsstring option"
  | NoModelResponse

definition ebind :: "error + 'a \<Rightarrow> ('a \<Rightarrow> error + 'b) \<Rightarrow> error + 'b" where
  "ebind m f = (case m of Inl e \<Rightarrow> Inl e | Inr x \<Rightarrow> f x)"

fun mapE :: "('a \<Rightarrow> error + 'b) \<Rightarrow> 'a list \<Rightarrow> error + 'b list" where
  "mapE f [] = Inr []"
| "mapE f (x # xs) =
     (case f x of
        Inl e \<Rightarrow> Inl e
      | Inr y \<Rightarrow> (case mapE f xs of Inl e \<Rightarrow> Inl e | Inr ys \<Rightarrow> Inr (y # ys)))"

text \<open>Truthiness, \<^verbatim>\<open>a || b\<close>, \<^verbatim>\<open>Array.isArray\<close>, and reading a property of a value
  that is neither \<^verbatim>\<open>null\<close> nor \<^verbatim>\<open>undefined\<close> (reading one of those raises a
  TypeError, which the callers below check first).\<close>

fun truthy :: "jsval \<Rightarrow> bool" where
  "truthy JUndefined = False"
| "truthy JNull = False"
| "truthy (JBool b) = b"
| "truthy (JNum n) = (n \<noteq> 0)"
| "truthy (JStr s) = (s \<noteq> [])"
| "truthy (JArr xs) = True"
| "truthy (JObj kvs) = True"

definition orElse :: "jsval \<Rightarrow> jsval \<Rightarrow> jsval" where
  "orElse a b = (if truthy a then a else b)"

fun isArray :: "jsval \<Rightarrow> bool" where
  "isArray (JArr xs) = True"
| "isArray v = False"

fun elems :: "jsval \<Rightarrow> jsval list" where
  "elems (JArr xs) = xs"
| "elems v = []"

definition nullish :: "jsval \<Rightarrow> bool" where
  "nullish v \<longleftrightarrow> v = JNull \<or> v = JUndefined"

fun getProp :: "jsval \<Rightarrow> string \<Rightarrow> jsval" where
  "getProp (JObj kvs) k = (case map_of kvs k of Some v \<Rightarrow> v | None \<Rightarrow> JUndefined)"
| "getProp v k = JUndefined"

text \<open>
  \<^verbatim>\<open>String(v)\<close> and \<^verbatim>\<open>v.toString()\<close>. A number is formatted by the runtime
  (\<open>fmt\<close>, a parameter). An array is its elements joined by commas, \<^verbatim>\<open>null\<close> giving
  the empty string. A parsed object is \<^verbatim>\<open>[object Object]\<close>, unless it has a property
  of its own named \<^verbatim>\<open>toString\<close>: that one is no function, and the conversion raises
  a TypeError.
\<close>

fun jsString :: "(real \<Rightarrow> jsstring) \<Rightarrow> jsval \<Rightarrow> error + jsstring"
  and joinElems :: "(real \<Rightarrow> jsstring) \<Rightarrow> jsval list \<Rightarrow> error + jsstring" where
  "jsString fmt JUndefined = Inr (str ''undefined'')"
| "jsString fmt JNull = Inr (str ''null'')"
| "jsString fmt (JBool b) = Inr (if b then str ''true'' else str ''false'')"
| "jsString fmt (JNum n) = Inr (fmt n)"
| "jsString fmt (JStr s) = Inr s"
| "jsString fmt (JArr xs) = joinElems fmt xs"
| "jsString fmt (JObj kvs) =
     (if ''toString'' \<in> fst ` set kvs then Inl TypeError else Inr (str ''[object Object]''))"
| "joinElems fmt [] = Inr []"
| "joinElems fmt (x # xs) =
     (case (if x = JNull \<or> x = JUndefined then Inr [] else jsString fmt x) of
        Inl e \<Rightarrow> Inl e
      | Inr s \<Rightarrow>
          if xs = [] then Inr s
          else (case joinElems fmt xs of Inl e \<Rightarrow> Inl e | Inr r \<Rightarrow> Inr (s @ str '','' @ r)))"

text \<open>\<^verbatim>\<open>xs.indexOf(a)\<close> on an array of strings.\<close>

fun arrayIndexOf :: "'a list \<Rightarrow> 'a \<Rightarrow> nat option" where
  "arrayIndexOf [] a = None"
| "arrayIndexOf (x # xs) a = (if x = a then Some 0 else map_option Suc (arrayIndexOf xs a))"

section \<open>The server: normalizing the provider's items\<close>

text \<open>A question as the server returns it (options and explanation are strings) and as
  the client stores it (options and explanation are the values received).\<close>

record ('o, 'e) quizq =
  question :: jsstring
  options :: "'o list"
  answer_index :: real
  explanation :: 'e

type_synonym squestion = "(jsstring, jsstring) quizq"

text \<open>\<^verbatim>\<open>while (o.length < 4) o.push('Option')\<close>\<close>

function padOptions :: "jsstring list \<Rightarrow> jsstring list" where
  "padOptions o' = (if length o' < 4 then padOptions (o' @ [str ''Option'']) else o')"
  by pat_completeness auto
termination
  by (relation "measure (\<lambda>o'. 4 - length o')") auto

declare padOptions.simps [simp del]

text \<open>The three parts of an item that both server variants read the same way.\<close>

definition itemQuestion :: "(real \<Rightarrow> jsstring) \<Rightarrow> jsval \<Rightarrow> error + jsstring" where
  "itemQuestion fmt it =
     ebind (jsString fmt
        (orElse (orElse (orElse (getProp it ''question'') (getProp it ''q'')) (getProp it ''Q'')) (JStr [])))
       (\<lambda>s. Inr (trim s))"

definition itemOptions :: "(real \<Rightarrow> jsstring) \<Rightarrow> jsval \<Rightarrow> error + jsstring list" where
  "itemOptions fmt it =
     (if isArray (getProp it ''options'') then mapE (jsString fmt) (elems (getProp it ''options''))
      else if isArray (getProp it ''choices'') then mapE (jsString fmt) (elems (getProp it ''choices''))
      else Inr [])"

definition itemAnswerIndex :: "jsval \<Rightarrow> jsstring list \<Rightarrow> real" where
  "itemAnswerIndex it opts =
     (case getProp it ''answer_index'' of
        JNum n \<Rightarrow> n
      | _ \<Rightarrow>
        (case getProp it ''answerIndex'' of
           JNum n \<Rightarrow> n
         | _ \<Rightarrow>
           (case getProp it ''answer'' of
              JStr a \<Rightarrow> (case arrayIndexOf opts a of Some i \<Rightarrow> real i | None \<Rightarrow> 0)
            | _ \<Rightarrow> 0)))"

definition itemExplanation :: "(real \<Rightarrow> jsstring) \<Rightarrow> jsval \<Rightarrow> error + jsstring" where
  "itemExplanation fmt it =
     (if truthy (getProp it ''explanation'') then jsString fmt (getProp it ''explanation'') else Inr [])"

text \<open>The callback of \<^verbatim>\<open>items.map\<close> in \<^verbatim>\<open>normalizeQuestions\<close> (server.js, first
  variant).\<close>

definition normalizeItem :: "(real \<Rightarrow> jsstring) \<Rightarrow> jsval \<Rightarrow> error + squestion" where
  "normalizeItem fmt it =
     (if nullish it then Inl TypeError
      else
        ebind (itemQuestion fmt it) (\<lambda>question'.
        ebind (itemOptions fmt it) (\<lambda>options0.
          let options' =
                (if length options0 < 4 then slice (padOptions options0) 0 4
                 else if length options0 > 4 then slice options0 0 4
                 else options0);
              answer_index' = itemAnswerIndex it options'
          in ebind (itemExplanation fmt it) (\<lambda>explanation'.
               Inr \<lparr>question = question', options = options',
                    answer_index = answer_index', explanation = explanation'\<rparr>))))"

definition usable :: "squestion \<Rightarrow> bool" where
  "usable q \<longleftrightarrow> question q \<noteq> [] \<and> length (options q) \<ge> 2"

definition normalizeQuestions ::
  "(real \<Rightarrow> jsstring) \<Rightarrow> jsval \<Rightarrow> int \<Rightarrow> error + squestion list" where
  "normalizeQuestions fmt items count =
     (case items of
        JArr its \<Rightarrow> ebind (mapE (normalizeItem fmt) its) (\<lambda>qs. Inr (sliceTo (filter usable qs) count))
      | _ \<Rightarrow> Inr [])"

text \<open>
  The callback of \<^verbatim>\<open>parsed.map\<close> in the second variant's \<^verbatim>\<open>/generate-quiz\<close> handler.
  It pads a copy \<open>o\<close> of the options and goes on with \<open>options\<close> itself.
\<close>

function popTo4 :: "jsstring list \<Rightarrow> jsstring list" where
  "popTo4 o' = (if length o' > 4 then popTo4 (butlast o') else o')"
  by pat_completeness auto
termination
  by (relation "measure length") auto

declare popTo4.simps [simp del]

definition normalizeItem2 :: "(real \<Rightarrow> jsstring) \<Rightarrow> jsval \<Rightarrow> error + squestion" where
  "normalizeItem2 fmt it =
     (if nullish it then Inl TypeError
      else
        ebind (itemQuestion fmt it) (\<lambda>question'.
        ebind (itemOptions fmt it) (\<lambda>options'.
          let o' = (if length options' < 4 then popTo4 (padOptions options') else options');
              answer_index' = itemAnswerIndex it options'
          in ebind (itemExplanation fmt it) (\<lambda>explanation'.
               Inr \<lparr>question = question', options = options',
                    answer_index = answer_index', explanation = explanation'\<rparr>))))"

definition generateQuizQuestions2 ::
  "(real \<Rightarrow> jsstring) \<Rightarrow> jsval list \<Rightarrow> int \<Rightarrow> error + squestion list" where
  "generateQuizQuestions2 fmt parsed count =
     ebind (mapE (normalizeItem2 fmt) parsed) (\<lambda>qs. Inr (sliceTo (filter usable qs) count))"

section \<open>The server: locating the payload in the provider's text\<close>

text \<open>
  \<^verbatim>\<open>JSON.parse\<close> is the runtime's: it is a parameter \<open>parse\<close> of the functions that
  call it, \<open>None\<close> where it raises a SyntaxError. The functions return \<^verbatim>\<open>null\<close> where
  the source does.
\<close>

type_synonym parser = "jsstring \<Rightarrow> jsval option"

definition extractJsonFromText :: "parser \<Rightarrow> jsstring \<Rightarrow> jsval" where
  "extractJsonFromText parse rawText =
     (if rawText = [] then JNull
      else
        (case indexOf (str ''```json'') rawText of
           None \<Rightarrow> JNull
         | Some start \<Rightarrow>
           (case lastIndexOf (str ''```'') rawText of
              None \<Rightarrow> JNull
            | Some end' \<Rightarrow>
              (case parse (trim (slice rawText (start + 7) end')) of
                 Some parsed \<Rightarrow> parsed
               | None \<Rightarrow> JNull))))"

text \<open>
  \<^verbatim>\<open>generateWithGemini\<close> from the point where the model's text is known (the loop
  over the models before that point talks to the provider). An empty text is the
  failure of every model. The error raised for a text with no usable payload carries
  the first 2000 code units of the text (\<open>None\<close> is the \<^verbatim>\<open>null\<close> that the second
  variant reports for an empty text).
\<close>

definition parsedPayload :: "parser \<Rightarrow> jsstring \<Rightarrow> jsval" where
  "parsedPayload parse responseText =
     (let parsed = extractJsonFromText parse responseText
      in if \<not> truthy parsed
         then (case parse responseText of Some v \<Rightarrow> v | None \<Rightarrow> parsed)
         else parsed)"

text \<open>\<^verbatim>\<open>Array.isArray(parsed) ? parsed : parsed?.questions\<close>\<close>

definition questionsOf :: "jsval \<Rightarrow> jsval" where
  "questionsOf parsed =
     (if isArray parsed then parsed
      else if nullish parsed then JUndefined
      else getProp parsed ''questions'')"

definition generateWithGemini ::
  "parser \<Rightarrow> (real \<Rightarrow> jsstring) \<Rightarrow> jsstring \<Rightarrow> int \<Rightarrow> error + squestion list" where
  "generateWithGemini parse fmt responseText count =
     (if responseText = [] then Inl NoModelResponse
      else
        let questions = questionsOf (parsedPayload parse responseText)
        in if \<not> truthy questions \<or> \<not> isArray questions
           then Inl (FailedToParse (Some (slice responseText 0 2000)))
           else normalizeQuestions fmt questions count)"

text \<open>The second variant: the text from the first \<^verbatim>\<open>[\<close> through the last \<^verbatim>\<open>]\<close>,
  cleaned by five global replacements and a trim, then parsed.\<close>

fun removeFences :: "jsstring \<Rightarrow> jsstring" where
  "removeFences [] = []"
| "removeFences (c # cs) =
     (if startsWith (str ''```json'') (c # cs) then removeFences (drop 6 cs)
      else if startsWith (str ''```'') (c # cs) then removeFences (drop 2 cs)
      else c # removeFences cs)"

definition straightenQuotes :: "jsstring \<Rightarrow> jsstring" where
  "straightenQuotes s =
     map (\<lambda>u. if u = 8216 \<or> u = 8217 then 39 else u)
       (map (\<lambda>u. if u = 8220 \<or> u = 8221 then 34 else u) s)"

fun dropTrailingCommas :: "jsstring \<Rightarrow> jsstring" where
  "dropTrailingCommas [] = []"
| "dropTrailingCommas (c # cs) =
     (if c = 44 \<and> (case dropWhile isSpace cs of [] \<Rightarrow> False | d # ds \<Rightarrow> d = 125 \<or> d = 93)
      then dropTrailingCommas cs
      else c # dropTrailingCommas cs)"

fun crlfToLf :: "jsstring \<Rightarrow> jsstring" where
  "crlfToLf [] = []"
| "crlfToLf [c] = [c]"
| "crlfToLf (c # d # cs) =
     (if c = 13 \<and> d = 10 then 10 # crlfToLf cs else c # crlfToLf (d # cs))"

fun collapseNewlines :: "jsstring \<Rightarrow> jsstring" where
  "collapseNewlines [] = []"
| "collapseNewlines [c] = [c]"
| "collapseNewlines (c # d # cs) =
     (if c = 10 \<and> d = 10 then collapseNewlines (d # cs) else c # collapseNewlines (d # cs))"

definition cleanJson :: "jsstring \<Rightarrow> jsstring" where
  "cleanJson s =
     trim (collapseNewlines (crlfToLf (dropTrailingCommas (straightenQuotes (removeFences s)))))"

text \<open>\<^verbatim>\<open>lastIndexOf(']') + 1\<close> is 0 when there is no \<^verbatim>\<open>]\<close>, so the test
  \<^verbatim>\<open>end === -1\<close> of the source never holds.\<close>

definition extractJsonArrayFromText :: "parser \<Rightarrow> jsstring \<Rightarrow> jsval" where
  "extractJsonArrayFromText parse rawText =
     (if rawText = [] then JNull
      else
        let start = indexOf [91] rawText;
            end' = (case lastIndexOf [93] rawText of None \<Rightarrow> 0 | Some j \<Rightarrow> j + 1)
        in (case start of
              None \<Rightarrow> JNull
            | Some start' \<Rightarrow>
              (case parse (cleanJson (slice rawText start' end')) of
                 Some parsed \<Rightarrow> parsed
               | None \<Rightarrow> JNull)))"

text \<open>The second variant's handler from the point where \<^verbatim>\<open>rawText\<close> is known: the
  response with status 500 is the error, the response with the questions the result.\<close>

definition generateQuiz2 ::
  "parser \<Rightarrow> (real \<Rightarrow> jsstring) \<Rightarrow> jsstring \<Rightarrow> int \<Rightarrow> error + squestion list" where
  "generateQuiz2 parse fmt rawText count =
     (let parsed = extractJsonArrayFromText parse rawText
      in if \<not> truthy parsed \<or> \<not> isArray parsed
         then Inl (FailedToParse (if rawText = [] then None else Some (slice rawText 0 2000)))
         else generateQuizQuestions2 fmt (elems parsed) count)"

section \<open>The client: the quiz session\<close>

text \<open>
  The script's global variables and the part of the page it reads back: the elements
  of class \<^verbatim>\<open>option-btn\<close> in document order (\<open>buttons\<close>) with their feedback
  classes, the section shown, the interval timers that are alive, the timeouts that
  are pending and the requests that are under way. Timer ids
  are positive, so a stored handle is truthy. What is only displayed (texts, the
  progress bar, the result figures, the start time they are computed from) is left out.

  The page holds the elements the script looks up when it is loaded, and no element
  of class \<^verbatim>\<open>option-btn\<close> of its own; \<open>overlay\<close> says whether it has the element
  \<^verbatim>\<open>loadingOverlay\<close> as well. The script writes the text of an option into the
  page as markup, and later reads back the elements of class \<^verbatim>\<open>option-btn\<close> and
  the element with the id \<^verbatim>\<open>loadingOverlay\<close>. What the browser's parser makes of
  an option's markup is a parameter of the page, \<open>html\<close>: the elements of that class
  that the markup brings, with the classes and the style they carry, and whether it
  brings an element with that id (\<open>strayOverlay\<close> says whether the options on the
  page have brought one). Markup is taken to run no script.
\<close>

type_synonym cquestion = "(jsval, jsval) quizq"

record button =
  selected :: bool
  correct :: bool
  incorrect :: bool
  inert :: bool

record markup =
  optionBtns :: "button list"
  overlayIn :: bool

record page =
  overlay :: bool
  html :: "jsval \<Rightarrow> markup"

datatype shown = Home | Quiz | Results

datatype callback = Feedback int | AutoNext

datatype caller = FromInit | FromMore

record session =
  quizData :: "cquestion list"
  currentQuestionIndex :: nat
  selectedAnswers :: "nat \<rightharpoonup> int"
  score :: nat
  timeLeft :: int
  timerHandle :: "nat option"
  previousQuestions :: "jsstring list"
  currentTopic :: jsstring
  currentCount :: int
  activeSection :: shown
  buttons :: "button list"
  intervals :: "nat list"
  timeouts :: "callback list"
  nextHandle :: nat
  inflight :: "caller list"
  page :: page
  strayOverlay :: bool

definition initialSession :: "page \<Rightarrow> shown \<Rightarrow> session" where
  "initialSession pg sec =
     \<lparr>quizData = [], currentQuestionIndex = 0, selectedAnswers = Map.empty, score = 0,
      timeLeft = 30, timerHandle = None, previousQuestions = [], currentTopic = [],
      currentCount = 5, activeSection = sec, buttons = [], intervals = [], timeouts = [],
      nextHandle = 1, inflight = [], page = pg, strayOverlay = False\<rparr>"

subsection \<open>The timer\<close>

definition clearInterval :: "nat \<Rightarrow> session \<Rightarrow> session" where
  "clearInterval h s = s\<lparr>intervals := removeAll h (intervals s)\<rparr>"

definition setInterval :: "session \<Rightarrow> nat \<times> session" where
  "setInterval s =
     (nextHandle s, s\<lparr>intervals := intervals s @ [nextHandle s], nextHandle := Suc (nextHandle s)\<rparr>)"

definition startTimer :: "session \<Rightarrow> session" where
  "startTimer s =
     (let s1 = s\<lparr>timeLeft := 30\<rparr>;
          s2 = (case timerHandle s1 of Some h \<Rightarrow> clearInterval h s1 | None \<Rightarrow> s1);
          (h', s3) = setInterval s2
      in s3\<lparr>timerHandle := Some h'\<rparr>)"

definition stopTimer :: "session \<Rightarrow> session" where
  "stopTimer s =
     (case timerHandle s of
        Some h \<Rightarrow> (clearInterval h s)\<lparr>timerHandle := None\<rparr>
      | None \<Rightarrow> s)"

definition resetTimer :: "session \<Rightarrow> session" where
  "resetTimer s = s\<lparr>timeLeft := 30\<rparr>"

subsection \<open>Rendering and feedback\<close>

definition freshButton :: button where
  "freshButton = \<lparr>selected = False, correct = False, incorrect = False, inert = False\<rparr>"

text \<open>\<^verbatim>\<open>buttons[x]\<close> for a number \<open>x\<close>: an element only when \<open>x\<close> is a whole number
  within the array.\<close>

definition buttonAt :: "button list \<Rightarrow> real \<Rightarrow> nat option" where
  "buttonAt bs x =
     (if 0 \<le> x \<and> x = of_int \<lfloor>x\<rfloor> \<and> nat \<lfloor>x\<rfloor> < length bs then Some (nat \<lfloor>x\<rfloor>) else None)"

text \<open>
  \<^verbatim>\<open>renderQuestion\<close> empties the container and appends one button for each option.
  The text of an option is built by a template literal, which converts the option to
  a string: the conversion of a parsed value raises a TypeError exactly when
  \<^verbatim>\<open>String\<close> does (\<open>stringifies\<close> says that it does not). When it raises, the
  buttons appended so far stay and the rest of the function is not run. The elements
  of class \<^verbatim>\<open>option-btn\<close> are read back in document order: the button of an option,
  then what the option's markup brings inside it, then the button of the next option.
\<close>

fun stringifies :: "jsval \<Rightarrow> bool"
  and stringifyAll :: "jsval list \<Rightarrow> bool" where
  "stringifies (JArr xs) = stringifyAll xs"
| "stringifies (JObj kvs) = (''toString'' \<notin> fst ` set kvs)"
| "stringifies JUndefined = True"
| "stringifies JNull = True"
| "stringifies (JBool b) = True"
| "stringifies (JNum n) = True"
| "stringifies (JStr s) = True"
| "stringifyAll [] = True"
| "stringifyAll (x # xs) = (stringifies x \<and> stringifyAll xs)"

definition emptyContainer :: "session \<Rightarrow> session" where
  "emptyContainer s = s\<lparr>buttons := [], strayOverlay := False\<rparr>"

definition appendOption :: "jsval \<Rightarrow> session \<Rightarrow> session" where
  "appendOption opt s =
     s\<lparr>buttons := buttons s @ freshButton # optionBtns (html (page s) opt),
       strayOverlay := strayOverlay s \<or> overlayIn (html (page s) opt)\<rparr>"

fun renderOptions :: "jsval list \<Rightarrow> session \<Rightarrow> error option \<times> session" where
  "renderOptions [] s = (None, s)"
| "renderOptions (opt # opts) s =
     (if stringifies opt then renderOptions opts (appendOption opt s) else (Some TypeError, s))"

definition renderQuestion :: "session \<Rightarrow> error option \<times> session" where
  "renderQuestion s =
     (if quizData s = [] then (None, emptyContainer s)
      else if currentQuestionIndex s < length (quizData s) then
        (let q = quizData s ! currentQuestionIndex s
         in (case renderOptions (options q) (emptyContainer s) of
               (Some e, s') \<Rightarrow> (Some e, s')
             | (None, s') \<Rightarrow> (None, resetTimer s')))
      else (Some TypeError, s))"

definition onOptionClicked :: "int \<Rightarrow> session \<Rightarrow> session" where
  "onOptionClicked index s =
     (if buttons s = [] then s
      else
        let bs = map (\<lambda>b. b\<lparr>selected := False\<rparr>) (buttons s);
            bs' = (case buttonAt bs (of_int index) of
                     Some i \<Rightarrow> bs[i := (bs ! i)\<lparr>selected := True\<rparr>]
                   | None \<Rightarrow> bs)
        in s\<lparr>buttons := bs',
             selectedAnswers := (selectedAnswers s)(currentQuestionIndex s \<mapsto> index),
             timeouts := timeouts s @ [Feedback index]\<rparr>)"

definition markCorrect :: "button list \<Rightarrow> real \<Rightarrow> button list" where
  "markCorrect bs x =
     (case buttonAt bs x of Some i \<Rightarrow> bs[i := (bs ! i)\<lparr>correct := True\<rparr>] | None \<Rightarrow> bs)"

definition markIncorrect :: "button list \<Rightarrow> real \<Rightarrow> button list" where
  "markIncorrect bs x =
     (case buttonAt bs x of Some i \<Rightarrow> bs[i := (bs ! i)\<lparr>incorrect := True\<rparr>] | None \<Rightarrow> bs)"

definition showAnswerFeedback :: "int \<Rightarrow> session \<Rightarrow> error + session" where
  "showAnswerFeedback selectedIndex s =
     (if currentQuestionIndex s < length (quizData s) then
        (let q = quizData s ! currentQuestionIndex s;
             bs = buttons s;
             bs1 = (if answer_index q \<ge> 0 \<and> buttonAt bs (answer_index q) \<noteq> None
                    then markCorrect bs (answer_index q) else bs);
             (bs2, score') =
               (if of_int selectedIndex \<noteq> answer_index q \<and> selectedIndex \<ge> 0
                   \<and> buttonAt bs1 (of_int selectedIndex) \<noteq> None
                then (markIncorrect bs1 (of_int selectedIndex), score s)
                else if of_int selectedIndex = answer_index q then (bs1, Suc (score s))
                else (bs1, score s))
         in Inr (s\<lparr>buttons := map (\<lambda>b. b\<lparr>inert := True\<rparr>) bs2,
                   score := score',
                   timeouts := timeouts s @ [AutoNext]\<rparr>))
      else Inl TypeError)"

subsection \<open>Moving between questions\<close>

text \<open>A handler that raises stops there: what it had changed stays changed.
  \<open>renderAndStart\<close> is the pair of calls \<^verbatim>\<open>renderQuestion(); startTimer();\<close> that
  ends each of the handlers below.\<close>

definition finishQuiz :: "session \<Rightarrow> session" where
  "finishQuiz s = (stopTimer s)\<lparr>activeSection := Results\<rparr>"

definition renderAndStart :: "session \<Rightarrow> session" where
  "renderAndStart s = (case renderQuestion s of (Some e, s') \<Rightarrow> s' | (None, s') \<Rightarrow> startTimer s')"

definition nextQuestion :: "session \<Rightarrow> session" where
  "nextQuestion s =
     (let s1 = stopTimer s
      in if int (currentQuestionIndex s1) < int (length (quizData s1)) - 1
         then renderAndStart (s1\<lparr>currentQuestionIndex := Suc (currentQuestionIndex s1)\<rparr>)
         else finishQuiz s1)"

definition previousQuestion :: "session \<Rightarrow> session" where
  "previousQuestion s =
     (if currentQuestionIndex s > 0
      then (let s1 = stopTimer s
            in renderAndStart (s1\<lparr>currentQuestionIndex := currentQuestionIndex s1 - 1\<rparr>))
      else s)"

definition restartQuiz :: "session \<Rightarrow> session" where
  "restartQuiz s =
     (let s1 = s\<lparr>currentQuestionIndex := 0, selectedAnswers := Map.empty, score := 0\<rparr>
      in if quizData s1 = [] then s1
         else renderAndStart (s1\<lparr>activeSection := Quiz\<rparr>))"

text \<open>The callback of the interval \<open>h\<close>, which runs only while \<open>h\<close> is alive.\<close>

definition tick :: "session \<Rightarrow> session" where
  "tick s =
     (let s1 = s\<lparr>timeLeft := timeLeft s - 1\<rparr>
      in if timeLeft s1 \<le> 0
         then (case showAnswerFeedback (- 1) s1 of Inl e \<Rightarrow> s1 | Inr s2 \<Rightarrow> s2)
         else s1)"

definition runCallback :: "callback \<Rightarrow> session \<Rightarrow> session" where
  "runCallback cb s =
     (case cb of
        Feedback index \<Rightarrow> (case showAnswerFeedback index s of Inl e \<Rightarrow> s | Inr s' \<Rightarrow> s')
      | AutoNext \<Rightarrow> nextQuestion s)"

subsection \<open>Fetching questions\<close>

text \<open>
  The answer to a request: the fetch or the reading of its body fails, or there is a
  status (\<^verbatim>\<open>resp.ok\<close>) and a body. \<open>clientQuestion\<close> is the object pushed onto
  \<^verbatim>\<open>quizData\<close>, \<open>push\<close> the two pushes of an accepted candidate, and
  \<open>appendNew\<close> the loop over the array received, which returns the error that
  stopped it, if any, and the count \<^verbatim>\<open>added\<close>.
\<close>

datatype response = NetworkError | Response bool jsval

definition clientAnswerIndex :: "jsval \<Rightarrow> real" where
  "clientAnswerIndex q =
     (case getProp q ''answer_index'' of
        JNum n \<Rightarrow> n
      | _ \<Rightarrow>
        (case getProp q ''answerIndex'' of
           JNum n \<Rightarrow> n
         | _ \<Rightarrow> (case getProp q ''correct'' of JNum n \<Rightarrow> n | _ \<Rightarrow> 0)))"

definition clientQuestion :: "jsval \<Rightarrow> jsstring \<Rightarrow> cquestion" where
  "clientQuestion q qtext =
     \<lparr>question = qtext,
      options = (if isArray (getProp q ''options'') then slice (elems (getProp q ''options'')) 0 4
                 else []),
      answer_index = max 0 (min 3 (clientAnswerIndex q)),
      explanation = orElse (getProp q ''explanation'') (JStr [])\<rparr>"

definition isDup :: "jsstring \<Rightarrow> session \<Rightarrow> bool" where
  "isDup qtext s \<longleftrightarrow>
     list_ex (\<lambda>existing. trim (question existing) = qtext) (quizData s)
     \<or> qtext \<in> set (previousQuestions s)"

definition push :: "jsval \<Rightarrow> jsstring \<Rightarrow> session \<Rightarrow> session" where
  "push q qtext s =
     s\<lparr>quizData := quizData s @ [clientQuestion q qtext],
       previousQuestions := previousQuestions s @ [qtext]\<rparr>"

fun appendNew :: "jsval list \<Rightarrow> nat \<Rightarrow> session \<Rightarrow> error option \<times> nat \<times> session" where
  "appendNew [] added s = (None, added, s)"
| "appendNew (q # qs) added s =
     (if nullish q then (Some TypeError, added, s)
      else
        (case orElse (getProp q ''question'') (JStr []) of
           JStr text \<Rightarrow>
             (let qtext = trim text
              in if qtext = [] then appendNew qs added s
                 else if isDup qtext s then appendNew qs added s
                 else appendNew qs (Suc added) (push q qtext s))
         | _ \<Rightarrow> (Some TypeError, added, s)))"

definition showLoading :: "bool \<Rightarrow> session \<Rightarrow> session" where
  "showLoading on s =
     (if (overlay (page s) \<or> strayOverlay s) \<and> on then emptyContainer s else s)"

text \<open>\<^verbatim>\<open>fetchAndAppendQuestions\<close> up to the request, and from its answer on; the result
  is the boolean it returns.\<close>

definition fetchBegin :: "caller \<Rightarrow> session \<Rightarrow> session" where
  "fetchBegin who s = (let s1 = showLoading True s in s1\<lparr>inflight := inflight s1 @ [who]\<rparr>)"

definition fetchAndAppendQuestions :: "response \<Rightarrow> session \<Rightarrow> bool \<times> session" where
  "fetchAndAppendQuestions r s =
     (case r of
        NetworkError \<Rightarrow> (False, s)
      | Response ok data \<Rightarrow>
          if \<not> ok then (False, s)
          else if nullish data then (False, s)
          else
            let arr = orElse (orElse (getProp data ''questions'') (getProp data ''quiz'')) (JArr [])
            in if \<not> isArray arr \<or> length (elems arr) = 0 then (False, s)
               else
                 (case appendNew (elems arr) 0 s of
                    (Some e, added, s') \<Rightarrow> (False, s')
                  | (None, added, s') \<Rightarrow>
                      if added = 0 then (if length (quizData s') = 0 then (False, s') else (True, s'))
                      else (True, s')))"

text \<open>\<^verbatim>\<open>initQuiz\<close> up to the request and after it; \<^verbatim>\<open>generateMoreQuestions\<close>
  likewise (after the request it only tells the user).\<close>

definition initQuiz :: "jsstring \<Rightarrow> int \<Rightarrow> session \<Rightarrow> session" where
  "initQuiz topic count s =
     (let s1 = s\<lparr>currentTopic := topic, currentCount := count, previousQuestions := [],
                   quizData := [], currentQuestionIndex := 0, selectedAnswers := Map.empty,
                   activeSection := Quiz\<rparr>;
          s2 = emptyContainer s1
      in fetchBegin FromInit (s2\<lparr>score := 0\<rparr>))"

definition fetchDone :: "caller \<Rightarrow> response \<Rightarrow> session \<Rightarrow> session" where
  "fetchDone who r s =
     (case fetchAndAppendQuestions r s of
        (ok, s') \<Rightarrow>
          (case who of
             FromInit \<Rightarrow> if \<not> ok then s' else renderAndStart (s'\<lparr>activeSection := Quiz\<rparr>)
           | FromMore \<Rightarrow> s'))"

definition generateMoreQuestions :: "session \<Rightarrow> session" where
  "generateMoreQuestions s = (if currentTopic s = [] then s else fetchBegin FromMore s)"

text \<open>The start button of the setup dialog: the topic typed and the count read by
  \<^verbatim>\<open>parseInt\<close> (\<open>None\<close> when it is no number).\<close>

definition modalStart :: "jsstring \<Rightarrow> int option \<Rightarrow> session \<Rightarrow> session" where
  "modalStart topicValue countValue s =
     (let topic = trim topicValue;
          count = (case countValue of None \<Rightarrow> 5 | Some n \<Rightarrow> if n = 0 then 5 else n)
      in if topic = [] then s
         else if count < 1 \<or> count > 20 then s
         else initQuiz topic count s)"

subsection \<open>Events\<close>

text \<open>
  One event is one run of a handler: a click on the button of an option, which runs
  the handler with the position of the option (a button that takes no pointer events
  any more is still clicked by the keyboard; every position below the number of
  elements of class \<^verbatim>\<open>option-btn\<close> is admitted, which are at least as many as the
  options rendered), a key, a click on one of the page's buttons, the start button of the dialog, the answer to a
  request, a pending timeout that fires, a tick of a live interval. Handlers run one
  after another. Every order of events is admitted: the page's buttons can be clicked
  in any section, and a pending timeout can fire before an older one.
\<close>

datatype key = Key1 | Key2 | Key3 | Key4 | ArrowRight | Enter | ArrowLeft | OtherKey

datatype event =
    ClickOption nat
  | KeyDown key
  | ClickPrev
  | ClickNext
  | ClickMore
  | ClickTryAgain
  | ClickBackHome
  | ModalStart jsstring "int option"
  | FetchAnswer nat response
  | Timeout nat
  | Tick nat

definition keydown :: "key \<Rightarrow> session \<Rightarrow> session" where
  "keydown k s =
     (if activeSection s \<noteq> Quiz then s
      else
        (case k of
           Key1 \<Rightarrow> onOptionClicked 0 s
         | Key2 \<Rightarrow> onOptionClicked 1 s
         | Key3 \<Rightarrow> onOptionClicked 2 s
         | Key4 \<Rightarrow> onOptionClicked 3 s
         | ArrowRight \<Rightarrow> nextQuestion s
         | Enter \<Rightarrow> nextQuestion s
         | ArrowLeft \<Rightarrow> previousQuestion s
         | OtherKey \<Rightarrow> s))"

definition dropAt :: "nat \<Rightarrow> 'a list \<Rightarrow> 'a list" where
  "dropAt i xs = take i xs @ drop (Suc i) xs"

definition step :: "event \<Rightarrow> session \<Rightarrow> session" where
  "step ev s =
     (case ev of
        ClickOption i \<Rightarrow>
          if i < length (buttons s) then onOptionClicked (int i) s else s
      | KeyDown k \<Rightarrow> keydown k s
      | ClickPrev \<Rightarrow> previousQuestion s
      | ClickNext \<Rightarrow> nextQuestion s
      | ClickMore \<Rightarrow> generateMoreQuestions s
      | ClickTryAgain \<Rightarrow> restartQuiz s
      | ClickBackHome \<Rightarrow> s\<lparr>activeSection := Home\<rparr>
      | ModalStart topicValue countValue \<Rightarrow> modalStart topicValue countValue s
      | FetchAnswer i r \<Rightarrow>
          if i < length (inflight s)
          then fetchDone (inflight s ! i) r (s\<lparr>inflight := dropAt i (inflight s)\<rparr>)
          else s
      | Timeout i \<Rightarrow>
          if i < length (timeouts s)
          then runCallback (timeouts s ! i) (s\<lparr>timeouts := dropAt i (timeouts s)\<rparr>)
          else s
      | Tick h \<Rightarrow> if h \<in> set (intervals s) then tick s else s)"

fun run :: "event list \<Rightarrow> session \<Rightarrow> session" where
  "run [] s = s"
| "run (ev # evs) s = run evs (step ev s)"

section \<open>Vocabulary of the properties\<close>

text \<open>The one live interval, if any, is the one whose handle the script holds, and
  the browser has not handed out its id again.\<close>

definition timerInv :: "session \<Rightarrow> bool" where
  "timerInv s \<longleftrightarrow>
     intervals s = (case timerHandle s of None \<Rightarrow> [] | Some h \<Rightarrow> [h])
     \<and> list_all (\<lambda>h. h < nextHandle s) (intervals s)"

text \<open>Two sessions with the same question list and the same ledger.\<close>

definition sameData :: "session \<Rightarrow> session \<Rightarrow> bool" where
  "sameData s' s \<longleftrightarrow> quizData s' = quizData s \<and> previousQuestions s' = previousQuestions s"

text \<open>The trimmed question text of a candidate as the client reads it, the candidates
  of an answer, and the texts a session already holds (its questions' trimmed texts and
  its ledger).\<close>

definition candidateText :: "jsval \<Rightarrow> jsstring" where
  "candidateText q =
     (case orElse (getProp q ''question'') (JStr []) of JStr t \<Rightarrow> trim t | _ \<Rightarrow> [])"

definition candidates :: "response \<Rightarrow> jsval list" where
  "candidates r =
     (case r of
        NetworkError \<Rightarrow> []
      | Response ok data \<Rightarrow>
          elems (orElse (orElse (getProp data ''questions'') (getProp data ''quiz'')) (JArr [])))"

definition sessionTexts :: "session \<Rightarrow> jsstring set" where
  "sessionTexts s = (trim \<circ> question) ` set (quizData s) \<union> set (previousQuestions s)"

text \<open>\<^verbatim>\<open>typeof v === 'number'\<close>, and the number within 0 and 3 that is nearest to a
  number.\<close>

fun isNum :: "jsval \<Rightarrow> bool" where
  "isNum (JNum n) = True"
| "isNum v = False"

definition clamp03 :: "real \<Rightarrow> real" where
  "clamp03 n = (if n < 0 then 0 else if 3 < n then 3 else n)"

text \<open>What \<^verbatim>\<open>renderQuestion\<close> appends for one option: the option's button and the
  elements of class \<^verbatim>\<open>option-btn\<close> that the option's markup brings.\<close>

definition rendered :: "page \<Rightarrow> jsval \<Rightarrow> button list" where
  "rendered pg opt = freshButton # optionBtns (html pg opt)"


fun strOf :: "jsval \<Rightarrow> jsstring" where
  "strOf (JStr s) = s"
| "strOf v = []"

fun numOf :: "jsval \<Rightarrow> real" where
  "numOf (JNum n) = n"
| "numOf v = 0"


text \<open>The Question that the specification describes for a well-formed item, to be
  compared with what \<open>normalizeQuestions\<close> returns: the item's text trimmed, its
  four options, its answer index and its explanation.\<close>

definition expected :: "jsval \<Rightarrow> squestion" where
  "expected it =
     \<lparr>question = trim (strOf (getProp it ''question'')),
      options = map strOf (elems (getProp it ''options'')),
      answer_index = numOf (getProp it ''answer_index''),
      explanation = strOf (getProp it ''explanation'')\<rparr>"

text \<open>The straight quote for a curly one; any other code unit stays.\<close>

definition straight :: "nat \<Rightarrow> nat" where
  "straight u = (if u = 8220 \<or> u = 8221 then 34 else if u = 8216 \<or> u = 8217 then 39 else u)"

text \<open>
  No payload is located in a text: for the first variant, there is no
  \<^verbatim>\<open>```json\<close> marker or no closing marker, or what stands between them does not
  parse; for the second, there is no \<^verbatim>\<open>[\<close>, or the cleaned text from it through the
  last \<^verbatim>\<open>]\<close> does not parse.
\<close>

definition nothingLocated :: "parser \<Rightarrow> jsstring \<Rightarrow> bool" where
  "nothingLocated parse responseText \<longleftrightarrow>
     (case indexOf (str ''```json'') responseText of
        None \<Rightarrow> True
      | Some a \<Rightarrow>
        (case lastIndexOf (str ''```'') responseText of
           None \<Rightarrow> True
         | Some b \<Rightarrow> parse (trim (slice responseText (a + 7) b)) = None))"

definition nothingLocated2 :: "parser \<Rightarrow> jsstring \<Rightarrow> bool" where
  "nothingLocated2 parse rawText \<longleftrightarrow>
     (case indexOf [91] rawText of
        None \<Rightarrow> True
      | Some a \<Rightarrow>
          parse (cleanJson (slice rawText a
            (case lastIndexOf [93] rawText of None \<Rightarrow> 0 | Some j \<Rightarrow> j + 1))) = None)"

section \<open>Examples\<close>

text \<open>
  Inputs of the examples: a provider item with four options, and the body of a
  successful answer of the server. \<open>wholeNumber\<close> stands for the runtime's number
  formatting in the examples, which format no number; it is the formatting of whole
  numbers below \<open>10\<^sup>2\<^sup>1\<close>.
\<close>

definition mcq :: "string \<Rightarrow> real \<Rightarrow> jsval" where
  "mcq t n = JObj [(''question'', JStr (str t)),
      (''options'', JArr [JStr (str ''a''), JStr (str ''b''), JStr (str ''c''), JStr (str ''d'')]),
      (''answer_index'', JNum n), (''explanation'', JStr [])]"

definition payload :: "jsval list \<Rightarrow> response" where
  "payload qs = Response True (JObj [(''status'', JStr (str ''ok'')), (''questions'', JArr qs)])"

function digits :: "nat \<Rightarrow> jsstring" where
  "digits n = (if n < 10 then [48 + n] else digits (n div 10) @ [48 + n mod 10])"
  by pat_completeness auto
termination
  by (relation "measure id") auto

declare digits.simps [simp del]

definition wholeNumber :: "real \<Rightarrow> jsstring" where
  "wholeNumber r = (if r < 0 then [45] else []) @ digits (nat \<lfloor>\<bar>r\<bar>\<rfloor>)"

text \<open>A page with the overlay, on which no option brings markup.\<close>

definition plainPage :: page where
  "plainPage = \<lparr>overlay = True, html = (\<lambda>opt. \<lparr>optionBtns = [], overlayIn = False\<rparr>)\<rparr>"

text \<open>A session whose only question has two options and the answer index 3.\<close>

definition shortSession :: session where
  "shortSession =
     (initialSession plainPage Quiz)
       \<lparr>quizData := [\<lparr>question = str ''Q'', options = [JStr (str ''a''), JStr (str ''b'')],
                      answer_index = 3, explanation = JStr []\<rparr>],
        buttons := [freshButton, freshButton]\<rparr>"

text \<open>A page on which the markup of one option brings an element of class
  \<^verbatim>\<open>option-btn\<close>, and a session on that page whose question has that option.\<close>

definition markupPage :: page where
  "markupPage =
     \<lparr>overlay = True,
      html = (\<lambda>opt. if opt = JStr (str ''<b class=option-btn>b</b>'')
                    then \<lparr>optionBtns = [freshButton], overlayIn = False\<rparr>
                    else \<lparr>optionBtns = [], overlayIn = False\<rparr>)\<rparr>"

definition markupSession :: session where
  "markupSession =
     (initialSession markupPage Quiz)
       \<lparr>quizData := [\<lparr>question = str ''Q'',
                      options = [JStr (str ''a''), JStr (str ''<b class=option-btn>b</b>'')],
                      answer_index = 0, explanation = JStr []\<rparr>]\<rparr>"

text \<open>An item one of whose options is an object with a property \<^verbatim>\<open>toString\<close>, and
  the events that start a quiz with it.\<close>

definition unprintable :: jsval where
  "unprintable = JObj [(''question'', JStr (str ''Q'')),
      (''options'', JArr [JStr (str ''a''), JObj [(''toString'', JNull)], JStr (str ''c'')]),
      (''answer_index'', JNum 0)]"

definition startUnprintable :: "event list" where
  "startUnprintable = [ModalStart (str ''Math'') (Some 1), FetchAnswer 0 (payload [unprintable])]"

text \<open>Items that name the answer by \<^verbatim>\<open>answerIndex\<close>, by \<^verbatim>\<open>correct\<close> and by the
  answer's text, and the events that start a quiz with the index 5/2.\<close>

definition aliasItem :: jsval where
  "aliasItem = JObj [(''question'', JStr (str ''Q'')),
      (''options'', JArr [JStr (str ''a''), JStr (str ''b''), JStr (str ''c''), JStr (str ''d'')]),
      (''answerIndex'', JNum 2)]"

definition correctItem :: jsval where
  "correctItem = JObj [(''question'', JStr (str ''Q'')),
      (''options'', JArr [JStr (str ''a''), JStr (str ''b''), JStr (str ''c''), JStr (str ''d'')]),
      (''correct'', JNum (- 1))]"

definition answerItem :: jsval where
  "answerItem = JObj [(''question'', JStr (str ''Q'')),
      (''options'', JArr [JStr (str ''a''), JStr (str ''b''), JStr (str ''c''), JStr (str ''d'')]),
      (''answer'', JStr (str ''b''))]"

definition startHalf :: "event list" where
  "startHalf = [ModalStart (str ''Math'') (Some 1), FetchAnswer 0 (payload [mcq ''A'' (5 / 2)])]"

text \<open>A session that holds the question A, answered once.\<close>

definition oneQuestion :: session where
  "oneQuestion = run [ModalStart (str ''Math'') (Some 1), FetchAnswer 0 (payload [mcq ''A'' 0]),
                      KeyDown Key1, Timeout 0]
                   (initialSession plainPage Home)"

text \<open>A session whose quiz is started and whose request is not answered yet.\<close>

definition started :: session where
  "started = run [ModalStart (str ''Math'') (Some 1)] (initialSession plainPage Home)"

text \<open>The events that start a quiz of two questions and go to the second.\<close>

definition onSecond :: "event list" where
  "onSecond = [ModalStart (str ''Math'') (Some 2), FetchAnswer 0 (payload [mcq ''A'' 0, mcq ''B'' 1]),
               ClickNext]"

text \<open>The server's question for the item with the text A, the options a to d and the
  answer index 7.\<close>

definition served7 :: squestion where
  "served7 = \<lparr>question = str ''A'', options = [str ''a'', str ''b'', str ''c'', str ''d''],
               answer_index = 7, explanation = []\<rparr>"

text \<open>
  Texts of a provider: the JSON text of an array of one question, which \<open>jsonParse\<close>
  (the runtime's \<^verbatim>\<open>JSON.parse\<close> on the texts the examples hand it) turns into its
  value; a refusal; a fence around something that is no JSON; the array with a
  trailing comma in a fence; a chatty answer with the array in a wrapper object, with
  fence markers, curly quotes and trailing commas; the array in a fence between
  prose; the array in a wrapper object under a key; and the array after prose that
  holds brackets. \<open>twoOptions\<close> is a parsed item with two options.
\<close>

definition quizText :: jsstring where
  \<open>quizText = str ''[{"question":"A","options":["a","b","c","d"],"answer_index":0}]''\<close>

definition quizValue :: jsval where
  "quizValue =
     JArr [JObj [(''question'', JStr (str ''A'')),
                 (''options'', JArr [JStr (str ''a''), JStr (str ''b''), JStr (str ''c''), JStr (str ''d'')]),
                 (''answer_index'', JNum 0)]]"

definition wrapped :: "string \<Rightarrow> jsstring" where
  \<open>wrapped k = str ''{"'' @ str k @ str ''":'' @ quizText @ str ''}''\<close>

definition jsonParse :: parser where
  "jsonParse = map_of [(quizText, quizValue),
       (wrapped ''questions'', JObj [(''questions'', quizValue)]),
       (wrapped ''quiz'', JObj [(''quiz'', quizValue)])]"

definition refusal :: jsstring where
  "refusal = str ''I cannot help with that.''"

definition badFence :: jsstring where
  "badFence = str ''```json oops ```''"

definition trailingComma :: jsstring where
  \<open>trailingComma = str ''```json[{"question":"A","options":["a","b","c","d"],"answer_index":0},]```''\<close>

definition chatty :: jsstring where
  \<open>chatty = str ''Sure! {"quiz": [```json{'' @ [8220] @ str ''question'' @ [8221]
      @ str '':"A","options":["a","b","c","d",],"answer_index":0,},```]} Enjoy.''\<close>

definition fencedQuiz :: jsstring where
  "fencedQuiz = str ''Here: ```json '' @ quizText @ str '' ``` Bye''"

definition bracketProse :: jsstring where
  "bracketProse = str ''See [1]: '' @ quizText"

definition twoOptions :: jsval where
  "twoOptions = JObj [(''question'', JStr (str ''Q'')),
                      (''options'', JArr [JStr (str ''a''), JStr (str ''b'')])]"

section \<open>Properties of the client\<close>

subsection \<open>Feedback and rendering\<close>

lemma length_markCorrect [simp]: "length (markCorrect bs x) = length bs"
  by (simp add: markCorrect_def split: option.splits)

lemma length_markIncorrect [simp]: "length (markIncorrect bs x) = length bs"
  by (simp add: markIncorrect_def split: option.splits)

lemma markCorrect_None: "buttonAt bs x = None \<Longrightarrow> markCorrect bs x = bs"
  by (simp add: markCorrect_def)

lemma markIncorrect_None: "buttonAt bs x = None \<Longrightarrow> markIncorrect bs x = bs"
  by (simp add: markIncorrect_def)

lemma showAnswerFeedback_fields:
  assumes "showAnswerFeedback sel s = Inr s'"
  shows "quizData s' = quizData s" "currentQuestionIndex s' = currentQuestionIndex s"
    "intervals s' = intervals s" "timerHandle s' = timerHandle s"
    "previousQuestions s' = previousQuestions s" "timeouts s' = timeouts s @ [AutoNext]"
    "length (buttons s') = length (buttons s)" "nextHandle s' = nextHandle s"
  using assms
  by (simp_all add: showAnswerFeedback_def Let_def split_def split: if_splits, auto)

lemma showAnswerFeedback_score:
  assumes "showAnswerFeedback sel s = Inr s'"
  shows "score s' = (if of_int sel = answer_index (quizData s ! currentQuestionIndex s)
                          then Suc (score s) else score s)"
  using assms
  by (simp add: showAnswerFeedback_def Let_def split_def split: if_splits, auto)

lemma showAnswerFeedback_Inr:
  assumes "currentQuestionIndex s < length (quizData s)"
  shows "\<exists>s'. showAnswerFeedback sel s = Inr s'"
  using assms by (simp add: showAnswerFeedback_def Let_def split_def)

lemma showAnswerFeedback_skip:
  assumes "showAnswerFeedback sel s = Inr s'"
    and "buttonAt (buttons s) (answer_index (quizData s ! currentQuestionIndex s)) = None"
    and "buttonAt (buttons s) (of_int sel) = None"
  shows "buttons s' = map (\<lambda>b. b\<lparr>inert := True\<rparr>) (buttons s)"
  using assms
  by (simp add: showAnswerFeedback_def Let_def split_def split: if_splits, auto)

lemma buttonAt_Some:
  "buttonAt bs x = Some i \<longleftrightarrow> x = real i \<and> i < length bs"
proof
  assume "buttonAt bs x = Some i"
  then have a: "0 \<le> x" "x = of_int \<lfloor>x\<rfloor>" "nat \<lfloor>x\<rfloor> < length bs" "i = nat \<lfloor>x\<rfloor>"
    by (auto simp: buttonAt_def split: if_splits)
  from a(1) have "0 \<le> \<lfloor>x\<rfloor>" by simp
  then have "real (nat \<lfloor>x\<rfloor>) = of_int \<lfloor>x\<rfloor>" by simp
  with a show "x = real i \<and> i < length bs" by simp
next
  assume "x = real i \<and> i < length bs"
  then show "buttonAt bs x = Some i" by (simp add: buttonAt_def)
qed

lemma markCorrect_nth:
  "i < length bs \<Longrightarrow>
     markCorrect bs x ! i = (if x = real i then (bs ! i)\<lparr>correct := True\<rparr> else bs ! i)"
proof (cases "buttonAt bs x")
  case None
  assume "i < length bs"
  with None have "x \<noteq> real i" using buttonAt_Some [of bs x i] by auto
  with None show ?thesis by (simp add: markCorrect_def)
next
  case (Some j)
  assume "i < length bs"
  with Some buttonAt_Some [of bs x j] show ?thesis
    by (auto simp: markCorrect_def nth_list_update)
qed

lemma markIncorrect_nth:
  "i < length bs \<Longrightarrow>
     markIncorrect bs x ! i = (if x = real i then (bs ! i)\<lparr>incorrect := True\<rparr> else bs ! i)"
proof (cases "buttonAt bs x")
  case None
  assume "i < length bs"
  with None have "x \<noteq> real i" using buttonAt_Some [of bs x i] by auto
  with None show ?thesis by (simp add: markIncorrect_def)
next
  case (Some j)
  assume "i < length bs"
  with Some buttonAt_Some [of bs x j] show ?thesis
    by (auto simp: markIncorrect_def nth_list_update)
qed

lemma buttonAt_negative: "x < 0 \<Longrightarrow> buttonAt bs x = None"
  by (simp add: buttonAt_def)

lemma showAnswerFeedback_buttons:
  assumes "showAnswerFeedback sel s = Inr s'"
  shows "buttons s' = map (\<lambda>b. b\<lparr>inert := True\<rparr>)
     (if of_int sel \<noteq> answer_index (quizData s ! currentQuestionIndex s)
      then markIncorrect (markCorrect (buttons s) (answer_index (quizData s ! currentQuestionIndex s)))
             (of_int sel)
      else markCorrect (buttons s) (answer_index (quizData s ! currentQuestionIndex s)))"
proof -
  let ?a = "answer_index (quizData s ! currentQuestionIndex s)"
  have 1: "(if ?a \<ge> 0 \<and> buttonAt (buttons s) ?a \<noteq> None then markCorrect (buttons s) ?a
            else buttons s) = markCorrect (buttons s) ?a"
    using buttonAt_negative [of ?a "buttons s"] by (auto simp: markCorrect_None not_le)
  have 2: "\<not> (sel \<ge> 0 \<and> buttonAt (markCorrect (buttons s) ?a) (of_int sel) \<noteq> None)
      \<Longrightarrow> markIncorrect (markCorrect (buttons s) ?a) (of_int sel) = markCorrect (buttons s) ?a"
    using buttonAt_negative [of "of_int sel" "markCorrect (buttons s) ?a"]
    by (auto simp: markIncorrect_None)
  from assms show ?thesis
    unfolding showAnswerFeedback_def Let_def 1
    by (auto simp: 2 split: if_splits)
qed

lemma showAnswerFeedback_marks:
  assumes "showAnswerFeedback sel s = Inr s'" and "i < length (buttons s)"
  shows "buttons s' ! i = (buttons s ! i)
      \<lparr>correct := correct (buttons s ! i)
           \<or> answer_index (quizData s ! currentQuestionIndex s) = real i,
       incorrect := incorrect (buttons s ! i)
           \<or> (of_int sel \<noteq> answer_index (quizData s ! currentQuestionIndex s) \<and> sel = int i),
       inert := True\<rparr>"
proof -
  have "(of_int sel = real i) = (sel = int i)" by (metis of_int_eq_iff of_int_of_nat_eq)
  with assms(2) show ?thesis
    unfolding showAnswerFeedback_buttons [OF assms(1)]
    by (cases "buttons s ! i") (simp add: markIncorrect_nth markCorrect_nth)
qed

lemma showAnswerFeedback_fraction:
  assumes "showAnswerFeedback sel s = Inr s'"
    and "\<forall>j. answer_index (quizData s ! currentQuestionIndex s) \<noteq> of_int j"
  shows "score s' = score s"
proof -
  from assms(2) have "of_int sel \<noteq> answer_index (quizData s ! currentQuestionIndex s)"
    by metis
  then show ?thesis by (simp add: showAnswerFeedback_score [OF assms(1)])
qed

lemma concat_singletons: "concat (map (\<lambda>x. [c]) xs) = map (\<lambda>x. c) xs"
  by (induction xs) simp_all

lemma renderOptions_buttons:
  "renderOptions opts s = (e, s') \<Longrightarrow>
     buttons s' = buttons s @ concat (map (rendered (page s)) (takeWhile stringifies opts))"
proof (induction opts arbitrary: s)
  case Nil
  then show ?case by simp
next
  case (Cons opt opts)
  show ?case
  proof (cases "stringifies opt")
    case True
    with Cons.prems have "renderOptions opts (appendOption opt s) = (e, s')" by simp
    from Cons.IH [OF this] True show ?thesis
      by (simp add: appendOption_def rendered_def)
  next
    case False
    with Cons.prems show ?thesis by simp
  qed
qed

lemma renderOptions_all:
  "stringifyAll opts \<Longrightarrow> renderOptions opts s
     = (None, s\<lparr>buttons := buttons s @ concat (map (\<lambda>opt. freshButton # optionBtns (html (page s) opt)) opts),
                strayOverlay := strayOverlay s \<or> list_ex (\<lambda>opt. overlayIn (html (page s) opt)) opts\<rparr>)"
  by (induction opts arbitrary: s) (simp_all add: appendOption_def)

lemma renderOptions_raises:
  "\<not> stringifyAll opts \<Longrightarrow> \<exists>s'. renderOptions opts s = (Some TypeError, s')"
  by (induction opts arbitrary: s) simp_all

lemma renderOptions_fields:
  assumes "renderOptions opts s = (e, s')"
  shows "quizData s' = quizData s" "currentQuestionIndex s' = currentQuestionIndex s"
    "intervals s' = intervals s" "timerHandle s' = timerHandle s"
    "previousQuestions s' = previousQuestions s" "timeouts s' = timeouts s"
    "score s' = score s" "nextHandle s' = nextHandle s" "timeLeft s' = timeLeft s"
  using assms
  by (induction opts arbitrary: s) (auto simp: appendOption_def split: if_splits)

lemma stringifyAll_iff: "stringifyAll xs \<longleftrightarrow> list_all stringifies xs"
  by (induction xs) simp_all

lemma stringifies_jsString:
  "stringifies v \<longleftrightarrow> (\<exists>t. jsString fmt v = Inr t)"
  "stringifyAll vs \<longleftrightarrow> (\<exists>t. joinElems fmt vs = Inr t)"
proof (induction v and vs rule: stringifies_stringifyAll.induct)
  case (9 x xs)
  show ?case
  proof (cases "x = JNull \<or> x = JUndefined")
    case True
    then have "stringifies x" by auto
    with True 9 show ?thesis by (auto split: sum.splits)
  next
    case False
    with 9 show ?thesis by (auto split: sum.splits)
  qed
qed simp_all

lemma renderQuestion_None:
  assumes "quizData s = [] \<or> currentQuestionIndex s < length (quizData s)
    \<and> stringifyAll (options (quizData s ! currentQuestionIndex s))"
  shows "\<exists>s'. renderQuestion s = (None, s')"
  using assms by (auto simp: renderQuestion_def Let_def renderOptions_all)

lemma renderQuestion_fields:
  assumes "renderQuestion s = (e, s')"
  shows "quizData s' = quizData s" "currentQuestionIndex s' = currentQuestionIndex s"
    "intervals s' = intervals s" "timerHandle s' = timerHandle s"
    "previousQuestions s' = previousQuestions s" "timeouts s' = timeouts s"
    "score s' = score s" "nextHandle s' = nextHandle s"
proof -
  have "quizData s' = quizData s \<and> currentQuestionIndex s' = currentQuestionIndex s
    \<and> intervals s' = intervals s \<and> timerHandle s' = timerHandle s
    \<and> previousQuestions s' = previousQuestions s \<and> timeouts s' = timeouts s
    \<and> score s' = score s \<and> nextHandle s' = nextHandle s"
  proof (cases "quizData s \<noteq> [] \<and> currentQuestionIndex s < length (quizData s)")
    case False
    with assms show ?thesis
      by (auto simp: renderQuestion_def emptyContainer_def split: if_splits)
  next
    case True
    obtain e' s1 where r: "renderOptions (options (quizData s ! currentQuestionIndex s))
        (emptyContainer s) = (e', s1)"
      by (cases "renderOptions (options (quizData s ! currentQuestionIndex s)) (emptyContainer s)") blast
    from assms True r have "s' = s1 \<or> s' = resetTimer s1"
      by (cases e') (simp_all add: renderQuestion_def Let_def)
    with renderOptions_fields [OF r] show ?thesis
      by (auto simp: emptyContainer_def resetTimer_def)
  qed
  then show "quizData s' = quizData s" "currentQuestionIndex s' = currentQuestionIndex s"
    "intervals s' = intervals s" "timerHandle s' = timerHandle s"
    "previousQuestions s' = previousQuestions s" "timeouts s' = timeouts s"
    "score s' = score s" "nextHandle s' = nextHandle s"
    by blast+
qed

lemma renderQuestion_buttons:
  assumes "renderQuestion s = (None, s')"
  shows "buttons s' = (if quizData s = [] then []
    else concat (map (\<lambda>opt. freshButton # optionBtns (html (page s) opt))
           (options (quizData s ! currentQuestionIndex s))))"
proof (cases "quizData s = []")
  case True
  with assms show ?thesis by (simp add: renderQuestion_def emptyContainer_def) auto
next
  case False
  show ?thesis
  proof (cases "stringifyAll (options (quizData s ! currentQuestionIndex s))")
    case True
    with assms False show ?thesis
      by (simp add: renderQuestion_def Let_def resetTimer_def renderOptions_all emptyContainer_def
          split: if_splits) auto
  next
    case a: False
    from renderOptions_raises [OF a, of "emptyContainer s"] obtain s1 where
      "renderOptions (options (quizData s ! currentQuestionIndex s)) (emptyContainer s)
        = (Some TypeError, s1)"
      by blast
    with assms False show ?thesis
      by (simp add: renderQuestion_def Let_def split: if_splits)
  qed
qed

lemma renderQuestion_made:
  assumes "currentQuestionIndex s < length (quizData s)"
  shows "buttons (snd (renderQuestion s))
     = concat (map (rendered (page s))
         (takeWhile stringifies (options (quizData s ! currentQuestionIndex s))))"
proof -
  obtain e s1 where r: "renderOptions (options (quizData s ! currentQuestionIndex s))
      (emptyContainer s) = (e, s1)"
    by (cases "renderOptions (options (quizData s ! currentQuestionIndex s)) (emptyContainer s)") blast
  from assms have ne: "quizData s \<noteq> []" by auto
  from renderOptions_buttons [OF r]
  have b: "buttons s1 = concat (map (rendered (page s))
         (takeWhile stringifies (options (quizData s ! currentQuestionIndex s))))"
    by (simp add: emptyContainer_def)
  from assms ne r b show ?thesis
    by (cases e) (simp_all add: renderQuestion_def Let_def resetTimer_def)
qed

lemma renderQuestion_raises:
  assumes "currentQuestionIndex s < length (quizData s)"
    and "\<not> stringifyAll (options (quizData s ! currentQuestionIndex s))"
  shows "\<exists>s'. renderQuestion s = (Some TypeError, s')"
proof -
  from renderOptions_raises [OF assms(2), of "emptyContainer s"] obtain s1 where
    "renderOptions (options (quizData s ! currentQuestionIndex s)) (emptyContainer s)
      = (Some TypeError, s1)"
    by blast
  with assms(1) show ?thesis by (auto simp: renderQuestion_def Let_def)
qed

subsection \<open>The timer invariant, handler by handler\<close>

lemma timerInv_same:
  assumes "timerInv s" and "intervals s' = intervals s" and "timerHandle s' = timerHandle s"
    and "nextHandle s' = nextHandle s"
  shows "timerInv s'"
proof -
  from assms(1) have a: "intervals s = (case timerHandle s of None \<Rightarrow> [] | Some h \<Rightarrow> [h])"
    and b: "list_all (\<lambda>h. h < nextHandle s) (intervals s)"
    unfolding timerInv_def by blast+
  show ?thesis
    unfolding timerInv_def assms(2,3,4) using a b by blast
qed

lemma timerInv_none: "intervals s = [] \<Longrightarrow> timerHandle s = None \<Longrightarrow> timerInv s"
  by (simp add: timerInv_def)

lemma timerInv_some:
  "intervals s = [h] \<Longrightarrow> timerHandle s = Some h \<Longrightarrow> h < nextHandle s \<Longrightarrow> timerInv s"
  by (simp add: timerInv_def)

lemma timerInv_fresh: "timerInv s \<Longrightarrow> nextHandle s \<notin> set (intervals s)"
  by (auto simp: timerInv_def list_all_iff)

lemma stopTimer_timer:
  assumes "timerInv s"
  shows "intervals (stopTimer s) = [] \<and> timerHandle (stopTimer s) = None"
proof (cases "timerHandle s")
  case None
  with assms show ?thesis by (simp add: timerInv_def stopTimer_def)
next
  case (Some h)
  with assms have "intervals s = [h]" by (simp add: timerInv_def)
  with Some show ?thesis by (simp add: stopTimer_def clearInterval_def)
qed

lemma stopTimer_nextHandle: "nextHandle (stopTimer s) = nextHandle s"
  by (simp add: stopTimer_def clearInterval_def split: option.splits)

lemma stopTimer_inv: "timerInv s \<Longrightarrow> timerInv (stopTimer s)"
  using stopTimer_timer [of s] by (simp add: timerInv_none)

lemma startTimer_timer:
  "timerInv s \<Longrightarrow> intervals (startTimer s) = [nextHandle s]
     \<and> timerHandle (startTimer s) = Some (nextHandle s)
     \<and> nextHandle (startTimer s) = Suc (nextHandle s)"
proof (cases "timerHandle s")
  case None
  assume "timerInv s"
  with None have "intervals s = []" by (simp add: timerInv_def)
  with None show ?thesis by (simp add: startTimer_def setInterval_def Let_def)
next
  case (Some h)
  assume "timerInv s"
  with Some have "intervals s = [h]" by (simp add: timerInv_def)
  with Some show ?thesis by (simp add: startTimer_def setInterval_def clearInterval_def Let_def)
qed

lemma startTimer_inv: "timerInv s \<Longrightarrow> timerInv (startTimer s)"
  using startTimer_timer [of s] by (simp add: timerInv_some)

lemma renderAndStart_inv: "timerInv s \<Longrightarrow> timerInv (renderAndStart s)"
proof (cases "renderQuestion s")
  case (Pair e s')
  assume "timerInv s"
  then have "timerInv s'" by (rule timerInv_same) (rule renderQuestion_fields(3,4,8) [OF Pair])+
  with Pair show ?thesis by (cases e) (simp_all add: renderAndStart_def startTimer_inv)
qed

lemma finishQuiz_inv: "timerInv s \<Longrightarrow> timerInv (finishQuiz s)"
  using stopTimer_timer [of s] by (simp add: finishQuiz_def timerInv_none)

lemma nextQuestion_inv: "timerInv s \<Longrightarrow> timerInv (nextQuestion s)"
proof -
  assume a: "timerInv s"
  have "timerInv (stopTimer s\<lparr>currentQuestionIndex := Suc (currentQuestionIndex (stopTimer s))\<rparr>)"
    by (rule timerInv_same [OF stopTimer_inv [OF a]]) simp_all
  then show ?thesis
    using a by (simp add: nextQuestion_def Let_def renderAndStart_inv finishQuiz_inv stopTimer_inv)
qed

lemma previousQuestion_inv: "timerInv s \<Longrightarrow> timerInv (previousQuestion s)"
proof -
  assume a: "timerInv s"
  have "timerInv (stopTimer s\<lparr>currentQuestionIndex := currentQuestionIndex (stopTimer s) - 1\<rparr>)"
    by (rule timerInv_same [OF stopTimer_inv [OF a]]) simp_all
  then show ?thesis
    using a by (simp add: previousQuestion_def Let_def renderAndStart_inv)
qed

lemma restartQuiz_inv: "timerInv s \<Longrightarrow> timerInv (restartQuiz s)"
proof -
  assume a: "timerInv s"
  have b: "timerInv (s\<lparr>currentQuestionIndex := 0, selectedAnswers := Map.empty, score := 0\<rparr>)"
    by (rule timerInv_same [OF a]) simp_all
  have "timerInv (s\<lparr>currentQuestionIndex := 0, selectedAnswers := Map.empty, score := 0, activeSection := Quiz\<rparr>)"
    by (rule timerInv_same [OF a]) simp_all
  then show ?thesis
    using b by (simp add: restartQuiz_def Let_def renderAndStart_inv)
qed

lemma onOptionClicked_timer:
  "intervals (onOptionClicked i s) = intervals s \<and> timerHandle (onOptionClicked i s) = timerHandle s
   \<and> nextHandle (onOptionClicked i s) = nextHandle s"
  by (simp add: onOptionClicked_def Let_def)

lemma onOptionClicked_inv: "timerInv s \<Longrightarrow> timerInv (onOptionClicked i s)"
  by (erule timerInv_same) (simp_all add: onOptionClicked_timer)

lemma feedback_or_same_inv:
  "timerInv s \<Longrightarrow> timerInv (case showAnswerFeedback i s of Inl e \<Rightarrow> s | Inr s' \<Rightarrow> s')"
proof (cases "showAnswerFeedback i s")
  case (Inl e)
  assume "timerInv s"
  with Inl show ?thesis by simp
next
  case (Inr s')
  assume "timerInv s"
  then have "timerInv s'" by (rule timerInv_same) (rule showAnswerFeedback_fields(3,4,8) [OF Inr])+
  with Inr show ?thesis by simp
qed

lemma tick_inv: "timerInv s \<Longrightarrow> timerInv (tick s)"
proof -
  assume a: "timerInv s"
  have b: "timerInv (s\<lparr>timeLeft := timeLeft s - 1\<rparr>)"
    by (rule timerInv_same [OF a]) simp_all
  show ?thesis
    using b feedback_or_same_inv [OF b, of "- 1"] by (simp add: tick_def Let_def)
qed

lemma runCallback_inv: "timerInv s \<Longrightarrow> timerInv (runCallback cb s)"
  by (cases cb) (simp_all add: runCallback_def feedback_or_same_inv nextQuestion_inv)

lemma keydown_inv: "timerInv s \<Longrightarrow> timerInv (keydown k s)"
  by (cases k) (simp_all add: keydown_def onOptionClicked_inv nextQuestion_inv previousQuestion_inv)

lemma appendNew_rule:
  assumes run: "appendNew qs n s = (e, n', s')"
    and base: "P n s"
    and stp: "\<And>q t n s. P n s \<Longrightarrow> \<not> nullish q \<Longrightarrow> orElse (getProp q ''question'') (JStr []) = JStr t
        \<Longrightarrow> trim t \<noteq> [] \<Longrightarrow> \<not> isDup (trim t) s \<Longrightarrow> P (Suc n) (push q (trim t) s)"
  shows "P n' s'"
  using run base
proof (induction qs n s rule: appendNew.induct)
  case (1 added s)
  then show ?case by simp
next
  case (2 q qs added s)
  show ?case
  proof (cases "nullish q")
    case True
    with 2(4,5) show ?thesis by simp
  next
    case nn: False
    show ?thesis
    proof (cases "orElse (getProp q ''question'') (JStr [])")
      case (JStr t)
      show ?thesis
      proof (cases "trim t = []")
        case True
        with 2(1) [OF nn JStr refl True] 2(4,5) nn JStr show ?thesis by (simp add: Let_def)
      next
        case ne: False
        show ?thesis
        proof (cases "isDup (trim t) s")
          case True
          with 2(2) [OF nn JStr refl ne True] 2(4,5) nn JStr ne show ?thesis by (simp add: Let_def)
        next
          case False
          have "P (Suc added) (push q (trim t) s)"
            by (rule stp [OF 2(5) nn JStr ne False])
          with 2(3) [OF nn JStr refl ne False] 2(4) nn JStr ne False show ?thesis
            by (simp add: Let_def)
        qed
      qed
    qed (use 2(4,5) nn in simp_all)
  qed
qed

lemma fetchAndAppendQuestions_rule:
  assumes r: "fetchAndAppendQuestions r s = (ok, s')"
    and base: "P s"
    and stp: "\<And>q t s. P s \<Longrightarrow> \<not> nullish q \<Longrightarrow> orElse (getProp q ''question'') (JStr []) = JStr t
        \<Longrightarrow> trim t \<noteq> [] \<Longrightarrow> \<not> isDup (trim t) s \<Longrightarrow> P (push q (trim t) s)"
  shows "P s'"
proof (cases r)
  case NetworkError
  with r base show ?thesis by (simp add: fetchAndAppendQuestions_def)
next
  case (Response okf data)
  let ?arr = "orElse (orElse (getProp data ''questions'') (getProp data ''quiz'')) (JArr [])"
  show ?thesis
  proof (cases "\<not> okf \<or> nullish data \<or> \<not> isArray ?arr \<or> length (elems ?arr) = 0")
    case True
    with r base Response show ?thesis
      by (auto simp add: fetchAndAppendQuestions_def Let_def split: if_splits)
  next
    case False
    obtain e n x where a: "appendNew (elems ?arr) 0 s = (e, n, x)"
      by (cases "appendNew (elems ?arr) 0 s") blast
    have px: "P x"
      by (rule appendNew_rule [OF a, where P = "\<lambda>n y. P y"]) (simp_all add: base stp)
    from r Response False a have "s' = x"
      by (cases e) (simp_all add: fetchAndAppendQuestions_def Let_def split: if_splits)
    with px show ?thesis by simp
  qed
qed

lemma push_inv: "timerInv s \<Longrightarrow> timerInv (push q t s)"
  by (erule timerInv_same) (simp_all add: push_def)

lemma fetchAndAppendQuestions_inv:
  assumes "fetchAndAppendQuestions r s = (ok, s')" and "timerInv s"
  shows "timerInv s'"
  by (rule fetchAndAppendQuestions_rule [OF assms(1), where P = timerInv])
     (simp_all add: assms(2) push_inv)

lemma fetchDone_inv: "timerInv s \<Longrightarrow> timerInv (fetchDone who r s)"
proof -
  assume a: "timerInv s"
  obtain ok s' where f: "fetchAndAppendQuestions r s = (ok, s')"
    by (cases "fetchAndAppendQuestions r s") blast
  have b: "timerInv s'" by (rule fetchAndAppendQuestions_inv [OF f a])
  then have c: "timerInv (s'\<lparr>activeSection := Quiz\<rparr>)"
    by (rule timerInv_same) simp_all
  show ?thesis
    using f b renderAndStart_inv [OF c] by (cases who) (simp_all add: fetchDone_def)
qed

lemma fetchBegin_inv: "timerInv s \<Longrightarrow> timerInv (fetchBegin who s)"
  by (erule timerInv_same) (simp_all add: fetchBegin_def showLoading_def emptyContainer_def Let_def)

lemma initQuiz_inv: "timerInv s \<Longrightarrow> timerInv (initQuiz topic count s)"
  unfolding initQuiz_def Let_def
  by (rule fetchBegin_inv, erule timerInv_same) (simp_all add: emptyContainer_def)

lemma modalStart_inv: "timerInv s \<Longrightarrow> timerInv (modalStart t c s)"
  by (simp add: modalStart_def Let_def initQuiz_inv)

lemma generateMoreQuestions_inv: "timerInv s \<Longrightarrow> timerInv (generateMoreQuestions s)"
  by (simp add: generateMoreQuestions_def fetchBegin_inv)

lemma step_inv: "timerInv s \<Longrightarrow> timerInv (step ev s)"
proof (cases ev)
  case (FetchAnswer i r)
  assume a: "timerInv s"
  then have "timerInv (s\<lparr>inflight := dropAt i (inflight s)\<rparr>)"
    by (rule timerInv_same) simp_all
  with a FetchAnswer show ?thesis by (simp add: step_def fetchDone_inv)
next
  case (Timeout i)
  assume a: "timerInv s"
  then have "timerInv (s\<lparr>timeouts := dropAt i (timeouts s)\<rparr>)"
    by (rule timerInv_same) simp_all
  with a Timeout show ?thesis by (simp add: step_def runCallback_inv)
next
  case ClickBackHome
  assume a: "timerInv s"
  then have "timerInv (s\<lparr>activeSection := Home\<rparr>)"
    by (rule timerInv_same) simp_all
  with ClickBackHome show ?thesis by (simp add: step_def)
qed (simp_all add: step_def onOptionClicked_inv keydown_inv previousQuestion_inv nextQuestion_inv
      generateMoreQuestions_inv restartQuiz_inv modalStart_inv tick_inv)

lemma run_inv: "timerInv s \<Longrightarrow> timerInv (run evs s)"
  by (induction evs arbitrary: s) (simp_all add: step_inv)

lemma initial_timerInv: "timerInv (initialSession ov sec)"
  by (simp add: timerInv_def initialSession_def)

lemma renderAndStart_intervals:
  assumes "timerInv s" and "intervals s = []"
  shows "set (intervals (renderAndStart s)) \<subseteq> {nextHandle s}"
proof (cases "renderQuestion s")
  case (Pair e s')
  have "timerInv s'"
    by (rule timerInv_same [OF assms(1)]) (rule renderQuestion_fields(3,4,8) [OF Pair])+
  from startTimer_timer [OF this] renderQuestion_fields(3,8) [OF Pair] Pair assms(2) show ?thesis
    by (cases e) (simp_all add: renderAndStart_def)
qed

lemma nextQuestion_stops:
  assumes "timerInv s"
  shows "set (intervals (nextQuestion s)) \<inter> set (intervals s) = {}"
proof -
  let ?s1 = "stopTimer s"
  let ?s2 = "?s1\<lparr>currentQuestionIndex := Suc (currentQuestionIndex ?s1)\<rparr>"
  have e: "intervals ?s1 = []" using stopTimer_timer [OF assms] by blast
  have i2: "timerInv ?s2" by (rule timerInv_same [OF stopTimer_inv [OF assms]]) simp_all
  have "set (intervals (renderAndStart ?s2)) \<subseteq> {nextHandle s}"
    using renderAndStart_intervals [OF i2] e by (simp add: stopTimer_nextHandle)
  moreover have "intervals (finishQuiz ?s1) = []"
    using stopTimer_timer [OF stopTimer_inv [OF assms]] by (simp add: finishQuiz_def)
  ultimately have "set (intervals (nextQuestion s)) \<subseteq> {nextHandle s}"
    by (simp add: nextQuestion_def Let_def)
  with timerInv_fresh [OF assms] show ?thesis by blast
qed

lemma previousQuestion_stops:
  assumes "timerInv s" and "0 < currentQuestionIndex s"
  shows "set (intervals (previousQuestion s)) \<inter> set (intervals s) = {}"
proof -
  let ?s1 = "stopTimer s"
  let ?s2 = "?s1\<lparr>currentQuestionIndex := currentQuestionIndex ?s1 - 1\<rparr>"
  have e: "intervals ?s1 = []" using stopTimer_timer [OF assms(1)] by blast
  have i2: "timerInv ?s2" by (rule timerInv_same [OF stopTimer_inv [OF assms(1)]]) simp_all
  have "set (intervals (renderAndStart ?s2)) \<subseteq> {nextHandle s}"
    using renderAndStart_intervals [OF i2] e by (simp add: stopTimer_nextHandle)
  then have "set (intervals (previousQuestion s)) \<subseteq> {nextHandle s}"
    using assms(2) by (simp add: previousQuestion_def Let_def)
  with timerInv_fresh [OF assms(1)] show ?thesis by blast
qed

lemma restartQuiz_stops:
  assumes "timerInv s" and "quizData s \<noteq> []" and "stringifyAll (options (quizData s ! 0))"
  shows "set (intervals (restartQuiz s)) \<inter> set (intervals s) = {}"
proof -
  let ?s2 = "s\<lparr>currentQuestionIndex := 0, selectedAnswers := Map.empty, score := 0,
               activeSection := Quiz\<rparr>"
  have "quizData ?s2 = [] \<or> currentQuestionIndex ?s2 < length (quizData ?s2)
      \<and> stringifyAll (options (quizData ?s2 ! currentQuestionIndex ?s2))"
    using assms(2,3) by simp
  from renderQuestion_None [OF this] obtain s' where r: "renderQuestion ?s2 = (None, s')" by blast
  have "timerInv ?s2" by (rule timerInv_same [OF assms(1)]) simp_all
  then have "timerInv s'" by (rule timerInv_same) (rule renderQuestion_fields(3,4,8) [OF r])+
  from startTimer_timer [OF this] renderQuestion_fields(8) [OF r] r
  have "intervals (renderAndStart ?s2) = [nextHandle s]" by (simp add: renderAndStart_def)
  then have "intervals (restartQuiz s) = [nextHandle s]"
    using assms(2) by (simp add: restartQuiz_def Let_def)
  with timerInv_fresh [OF assms(1)] show ?thesis by simp
qed

subsection \<open>Trimming, and invariants of the question list and the ledger\<close>

lemma hd_rev_dropWhile_rev:
  "rev (dropWhile P (rev a)) \<noteq> [] \<Longrightarrow> hd (rev (dropWhile P (rev a))) = hd a"
  by (metis Nil_is_rev_conv dropWhile_eq_Nil_conv dropWhile_last hd_rev last_rev)

lemma dropWhile_fix: "xs = [] \<or> \<not> P (hd xs) \<Longrightarrow> dropWhile P xs = xs"
  by (cases xs) auto

lemma trim_idem: "trim (trim s) = trim s"
proof -
  define a where "a = dropWhile isSpace s"
  define b where "b = dropWhile isSpace (rev a)"
  have a: "a = [] \<or> \<not> isSpace (hd a)"
    unfolding a_def using hd_dropWhile [of isSpace s] by blast
  have b: "b = [] \<or> \<not> isSpace (hd b)"
    unfolding b_def using hd_dropWhile [of isSpace "rev a"] by blast
  have "rev b = [] \<or> \<not> isSpace (hd (rev b))"
  proof (cases "rev b = []")
    case True
    then show ?thesis by blast
  next
    case False
    then have h: "hd (rev b) = hd a" unfolding b_def by (rule hd_rev_dropWhile_rev)
    have "a \<noteq> []"
    proof
      assume "a = []"
      then have "rev b = []" by (simp add: b_def)
      with False show False by blast
    qed
    with a h show ?thesis by simp
  qed
  then have 1: "dropWhile isSpace (rev b) = rev b" by (rule dropWhile_fix)
  have 2: "dropWhile isSpace b = b" using b by (rule dropWhile_fix)
  have "trim s = rev b" by (simp add: trim_def a_def b_def)
  moreover have "trim (rev b) = rev b" by (simp add: trim_def 1 2)
  ultimately show ?thesis by simp
qed

lemma isDup_iff:
  "isDup t s \<longleftrightarrow> t \<in> (trim \<circ> question) ` set (quizData s) \<or> t \<in> set (previousQuestions s)"
  by (auto simp: isDup_def list_ex_iff)

lemma sameData_refl [simp]: "sameData s s"
  by (simp add: sameData_def)

lemma stopTimer_data: "sameData (stopTimer s) s"
  by (simp add: sameData_def stopTimer_def clearInterval_def split: option.splits)

lemma startTimer_data: "sameData (startTimer s) s"
  by (simp add: sameData_def startTimer_def setInterval_def clearInterval_def Let_def split: option.splits)

lemma renderAndStart_data: "sameData (renderAndStart s) s"
proof (cases "renderQuestion s")
  case (Pair e s')
  with renderQuestion_fields(1,5) [OF Pair] startTimer_data [of s'] show ?thesis
    by (cases e) (simp_all add: renderAndStart_def sameData_def)
qed

lemma finishQuiz_data: "sameData (finishQuiz s) s"
  using stopTimer_data [of s] by (simp add: finishQuiz_def sameData_def)

lemma nextQuestion_data: "sameData (nextQuestion s) s"
  using stopTimer_data [of s] finishQuiz_data [of "stopTimer s"]
    renderAndStart_data [of "stopTimer s\<lparr>currentQuestionIndex := Suc (currentQuestionIndex (stopTimer s))\<rparr>"]
  by (simp add: nextQuestion_def Let_def sameData_def)

lemma previousQuestion_data: "sameData (previousQuestion s) s"
  using stopTimer_data [of s]
    renderAndStart_data [of "stopTimer s\<lparr>currentQuestionIndex := currentQuestionIndex (stopTimer s) - 1\<rparr>"]
  by (simp add: previousQuestion_def Let_def sameData_def)

lemma restartQuiz_data: "sameData (restartQuiz s) s"
  using renderAndStart_data [of "s\<lparr>currentQuestionIndex := 0, selectedAnswers := Map.empty, score := 0, activeSection := Quiz\<rparr>"]
  by (simp add: restartQuiz_def Let_def sameData_def)

lemma onOptionClicked_data: "sameData (onOptionClicked i s) s"
  by (simp add: onOptionClicked_def Let_def sameData_def)

lemma feedback_or_same_data:
  "sameData (case showAnswerFeedback i s of Inl e \<Rightarrow> s | Inr s' \<Rightarrow> s') s"
proof (cases "showAnswerFeedback i s")
  case (Inl e)
  then show ?thesis by simp
next
  case (Inr s')
  with showAnswerFeedback_fields(1,5) [OF Inr] show ?thesis by (simp add: sameData_def)
qed

lemma tick_data: "sameData (tick s) s"
  using feedback_or_same_data [where i = "- 1" and s = "s\<lparr>timeLeft := timeLeft s - 1\<rparr>"]
  by (simp add: tick_def Let_def sameData_def)

lemma runCallback_data: "sameData (runCallback cb s) s"
  by (cases cb) (simp_all add: runCallback_def feedback_or_same_data nextQuestion_data)

lemma keydown_data: "sameData (keydown k s) s"
  by (cases k) (simp_all add: keydown_def onOptionClicked_data nextQuestion_data previousQuestion_data)

lemma fetchBegin_data: "sameData (fetchBegin who s) s"
  by (simp add: fetchBegin_def showLoading_def emptyContainer_def Let_def sameData_def)

lemma generateMoreQuestions_data: "sameData (generateMoreQuestions s) s"
  by (simp add: generateMoreQuestions_def fetchBegin_data)

lemma modalStart_data:
  "sameData (modalStart t c s) s
   \<or> (quizData (modalStart t c s) = [] \<and> previousQuestions (modalStart t c s) = [])"
  by (simp add: modalStart_def Let_def initQuiz_def fetchBegin_def showLoading_def emptyContainer_def sameData_def)

text \<open>An invariant of the question list and the ledger.\<close>

lemma step_data_rule:
  assumes base: "P (quizData s) (previousQuestions s)"
    and empty: "P [] []"
    and stp: "\<And>qd pq q t. P qd pq \<Longrightarrow> \<not> nullish q
        \<Longrightarrow> orElse (getProp q ''question'') (JStr []) = JStr t \<Longrightarrow> trim t \<noteq> []
        \<Longrightarrow> trim t \<notin> (trim \<circ> question) ` set qd \<Longrightarrow> trim t \<notin> set pq
        \<Longrightarrow> P (qd @ [clientQuestion q (trim t)]) (pq @ [trim t])"
  shows "P (quizData (step ev s)) (previousQuestions (step ev s))"
proof -
  have same: "\<And>s'. sameData s' s \<Longrightarrow> P (quizData s') (previousQuestions s')"
    using base by (simp add: sameData_def)
  show ?thesis
  proof (cases ev)
    case (ClickOption i)
    then show ?thesis by (simp add: step_def same onOptionClicked_data base)
  next
    case (KeyDown k)
    then show ?thesis by (simp add: step_def same keydown_data)
  next
    case ClickPrev
    then show ?thesis by (simp add: step_def same previousQuestion_data)
  next
    case ClickNext
    then show ?thesis by (simp add: step_def same nextQuestion_data)
  next
    case ClickMore
    then show ?thesis by (simp add: step_def same generateMoreQuestions_data)
  next
    case ClickTryAgain
    then show ?thesis by (simp add: step_def same restartQuiz_data)
  next
    case ClickBackHome
    then show ?thesis by (simp add: step_def base)
  next
    case (ModalStart t c)
    with modalStart_data [of t c s] show ?thesis
      by (auto simp add: step_def same empty)
  next
    case (FetchAnswer i r)
    show ?thesis
    proof (cases "i < length (inflight s)")
      case False
      with FetchAnswer show ?thesis by (simp add: step_def base)
    next
      case True
      let ?s0 = "s\<lparr>inflight := dropAt i (inflight s)\<rparr>"
      obtain ok s' where f: "fetchAndAppendQuestions r ?s0 = (ok, s')"
        by (cases "fetchAndAppendQuestions r ?s0") blast
      have p: "P (quizData s') (previousQuestions s')"
      proof (rule fetchAndAppendQuestions_rule [OF f, where P = "\<lambda>x. P (quizData x) (previousQuestions x)"])
        show "P (quizData ?s0) (previousQuestions ?s0)" using base by simp
      next
        fix q t x
        assume "P (quizData x) (previousQuestions x)" "\<not> nullish q"
          "orElse (getProp q ''question'') (JStr []) = JStr t" "trim t \<noteq> []" "\<not> isDup (trim t) x"
        then show "P (quizData (push q (trim t) x)) (previousQuestions (push q (trim t) x))"
          using stp [of "quizData x" "previousQuestions x" q t] by (simp add: push_def isDup_iff)
      qed
      have q: "P (quizData (renderAndStart (s'\<lparr>activeSection := Quiz\<rparr>)))
                 (previousQuestions (renderAndStart (s'\<lparr>activeSection := Quiz\<rparr>)))"
        using p renderAndStart_data [of "s'\<lparr>activeSection := Quiz\<rparr>"] by (simp add: sameData_def)
      show ?thesis
        using FetchAnswer True f p q
        by (cases "inflight s ! i") (simp_all add: step_def fetchDone_def)
    qed
  next
    case (Timeout i)
    then show ?thesis
      using runCallback_data [of "timeouts s ! i" "s\<lparr>timeouts := dropAt i (timeouts s)\<rparr>"] base
      by (simp add: step_def sameData_def)
  next
    case (Tick h)
    then show ?thesis by (simp add: step_def same tick_data base)
  qed
qed

lemma run_data_rule:
  assumes base: "P (quizData s) (previousQuestions s)"
    and empty: "P [] []"
    and stp: "\<And>qd pq q t. P qd pq \<Longrightarrow> \<not> nullish q
        \<Longrightarrow> orElse (getProp q ''question'') (JStr []) = JStr t \<Longrightarrow> trim t \<noteq> []
        \<Longrightarrow> trim t \<notin> (trim \<circ> question) ` set qd \<Longrightarrow> trim t \<notin> set pq
        \<Longrightarrow> P (qd @ [clientQuestion q (trim t)]) (pq @ [trim t])"
  shows "P (quizData (run evs s)) (previousQuestions (run evs s))"
  using base
proof (induction evs arbitrary: s)
  case Nil
  then show ?case by simp
next
  case (Cons ev evs)
  have "P (quizData (step ev s)) (previousQuestions (step ev s))"
    by (rule step_data_rule [where P = P, OF Cons.prems empty stp])
  then show ?case using Cons.IH by simp
qed

lemma question_clientQuestion [simp]: "question (clientQuestion q t) = t"
  by (simp add: clientQuestion_def)

lemma appendNew_appends:
  assumes "appendNew qs n s = (e, n', s')"
  shows "\<exists>new. s' = s\<lparr>quizData := quizData s @ new,
                       previousQuestions := previousQuestions s @ map question new\<rparr>
           \<and> n' = n + length new
           \<and> subseq (map question new) (map candidateText qs)
           \<and> set (map question new) \<inter> sessionTexts s = {}"
  using assms
proof (induction qs n s rule: appendNew.induct)
  case (1 added s)
  then show ?case by simp
next
  case (2 q qs added s)
  show ?case
  proof (cases "nullish q")
    case True
    with 2(4) show ?thesis by simp
  next
    case nn: False
    show ?thesis
    proof (cases "orElse (getProp q ''question'') (JStr [])")
      case (JStr t)
      show ?thesis
      proof (cases "trim t = []")
        case True
        with 2(4) nn JStr have "appendNew qs added s = (e, n', s')" by (simp add: Let_def)
        from 2(1) [OF nn JStr refl True this] obtain new where
          n: "s' = s\<lparr>quizData := quizData s @ new,
                       previousQuestions := previousQuestions s @ map question new\<rparr>"
            "n' = added + length new" "subseq (map question new) (map candidateText qs)"
            "set (map question new) \<inter> sessionTexts s = {}" by blast
        show ?thesis
        proof (intro exI [of _ new] conjI)
          show "subseq (map question new) (map candidateText (q # qs))"
            using n(3) by (simp add: list_emb_Cons)
        qed (use n in simp_all)
      next
        case ne: False
        show ?thesis
        proof (cases "isDup (trim t) s")
          case True
          with 2(4) nn JStr ne have "appendNew qs added s = (e, n', s')" by (simp add: Let_def)
          from 2(2) [OF nn JStr refl ne True this] obtain new where
            n: "s' = s\<lparr>quizData := quizData s @ new,
                       previousQuestions := previousQuestions s @ map question new\<rparr>"
              "n' = added + length new" "subseq (map question new) (map candidateText qs)"
              "set (map question new) \<inter> sessionTexts s = {}" by blast
          show ?thesis
          proof (intro exI [of _ new] conjI)
            show "subseq (map question new) (map candidateText (q # qs))"
              using n(3) by (simp add: list_emb_Cons)
          qed (use n in simp_all)
        next
          case False
          let ?p = "push q (trim t) s"
          from 2(4) nn JStr ne False have "appendNew qs (Suc added) ?p = (e, n', s')"
            by (simp add: Let_def)
          from 2(3) [OF nn JStr refl ne False this] obtain new where
            n: "s' = ?p\<lparr>quizData := quizData ?p @ new,
                       previousQuestions := previousQuestions ?p @ map question new\<rparr>"
              "n' = Suc added + length new" "subseq (map question new) (map candidateText qs)"
              "set (map question new) \<inter> sessionTexts ?p = {}" by blast
          have ct: "candidateText q = trim t" by (simp add: candidateText_def JStr)
          have sub: "sessionTexts s \<subseteq> sessionTexts ?p"
            by (auto simp: sessionTexts_def push_def)
          have notin: "trim t \<notin> sessionTexts s"
            using False by (simp add: isDup_iff sessionTexts_def)
          show ?thesis
          proof (intro exI [of _ "clientQuestion q (trim t) # new"] conjI)
            show "s' = s\<lparr>quizData := quizData s @ clientQuestion q (trim t) # new,
                       previousQuestions := previousQuestions s @ map question (clientQuestion q (trim t) # new)\<rparr>"
              using n(1) by (simp add: push_def)
            show "n' = added + length (clientQuestion q (trim t) # new)" using n(2) by simp
            show "subseq (map question (clientQuestion q (trim t) # new)) (map candidateText (q # qs))"
              using n(3) ct by simp
            show "set (map question (clientQuestion q (trim t) # new)) \<inter> sessionTexts s = {}"
              using n(4) sub notin by auto
          qed
        qed
      qed
    qed (use 2(4) nn in simp_all)
  qed
qed

lemma fetchAndAppendQuestions_appends:
  assumes "fetchAndAppendQuestions r s = (ok, s')"
  shows "\<exists>new. s' = s\<lparr>quizData := quizData s @ new,
                       previousQuestions := previousQuestions s @ map question new\<rparr>
           \<and> subseq (map question new) (map candidateText (candidates r))
           \<and> set (map question new) \<inter> sessionTexts s = {}"
proof -
  have triv: "s' = s \<Longrightarrow> ?thesis"
    by (intro exI [of _ "[]"]) simp
  show ?thesis
  proof (cases r)
    case NetworkError
    with assms triv show ?thesis by (simp add: fetchAndAppendQuestions_def)
  next
    case (Response okf data)
    let ?arr = "orElse (orElse (getProp data ''questions'') (getProp data ''quiz'')) (JArr [])"
    show ?thesis
    proof (cases "\<not> okf \<or> nullish data \<or> \<not> isArray ?arr \<or> length (elems ?arr) = 0")
      case True
      with assms Response have "s' = s"
        by (auto simp add: fetchAndAppendQuestions_def Let_def split: if_splits)
      then show ?thesis by (rule triv)
    next
      case False
      obtain e n x where a: "appendNew (elems ?arr) 0 s = (e, n, x)"
        by (cases "appendNew (elems ?arr) 0 s") blast
      from assms Response False a have "s' = x"
        by (cases e) (simp_all add: fetchAndAppendQuestions_def Let_def split: if_splits)
      moreover from appendNew_appends [OF a] obtain new where
        "x = s\<lparr>quizData := quizData s @ new,
               previousQuestions := previousQuestions s @ map question new\<rparr>"
        "subseq (map question new) (map candidateText (elems ?arr))"
        "set (map question new) \<inter> sessionTexts s = {}" by blast
      ultimately show ?thesis
        using Response by (intro exI [of _ new]) (simp add: candidates_def)
    qed
  qed
qed

lemma run_dedup:
  "previousQuestions (run evs (initialSession ov sec)) = map question (quizData (run evs (initialSession ov sec)))
   \<and> distinct (map (trim \<circ> question) (quizData (run evs (initialSession ov sec))))"
proof (rule run_data_rule [where P = "\<lambda>qd pq. pq = map question qd \<and> distinct (map (trim \<circ> question) qd)"])
  show "previousQuestions (initialSession ov sec) = map question (quizData (initialSession ov sec))
    \<and> distinct (map (trim \<circ> question) (quizData (initialSession ov sec)))"
    by (simp add: initialSession_def)
next
  show "[] = map question [] \<and> distinct (map (trim \<circ> question) [])" by simp
next
  fix qd :: "cquestion list" and pq q t
  assume "pq = map question qd \<and> distinct (map (trim \<circ> question) qd)"
    and "trim t \<notin> (trim \<circ> question) ` set qd"
  then show "pq @ [trim t] = map question (qd @ [clientQuestion q (trim t)])
     \<and> distinct (map (trim \<circ> question) (qd @ [clientQuestion q (trim t)]))"
    by (simp add: trim_idem)
qed

lemma clientQuestion_range:
  "0 \<le> answer_index (clientQuestion q t) \<and> answer_index (clientQuestion q t) \<le> 3"
  by (simp add: clientQuestion_def)

lemma run_range:
  "\<forall>q \<in> set (quizData (run evs (initialSession ov sec))). 0 \<le> answer_index q \<and> answer_index q \<le> 3"
proof (rule run_data_rule [where P = "\<lambda>qd pq. \<forall>q \<in> set qd. 0 \<le> answer_index q \<and> answer_index q \<le> 3"])
  show "\<forall>q\<in>set (quizData (initialSession ov sec)). 0 \<le> answer_index q \<and> answer_index q \<le> 3"
    by (simp add: initialSession_def)
next
  show "\<forall>q\<in>set ([] :: cquestion list). 0 \<le> answer_index q \<and> answer_index q \<le> 3" by simp
next
  fix qd :: "cquestion list" and q t
  assume "\<forall>q\<in>set qd. 0 \<le> answer_index q \<and> answer_index q \<le> 3"
  then show "\<forall>q'\<in>set (qd @ [clientQuestion q (trim t)]). 0 \<le> answer_index q' \<and> answer_index q' \<le> 3"
    using clientQuestion_range [of q "trim t"] by auto
qed

lemma appendNew_count:
  assumes "appendNew qs n s = (e, n', s')"
  shows "n \<le> n' \<and> length (quizData s') = length (quizData s) + (n' - n) \<and> (n' = n \<longrightarrow> s' = s)"
proof -
  from appendNew_appends [OF assms] obtain new where
    n: "s' = s\<lparr>quizData := quizData s @ new,
                 previousQuestions := previousQuestions s @ map question new\<rparr>"
    "n' = n + length new" by blast
  then show ?thesis by simp
qed

lemma fetchAndAppendQuestions_same:
  assumes f: "fetchAndAppendQuestions r s = (ok, s')"
    and len: "length (quizData s') = length (quizData s)"
  shows "s' = s"
proof -
  from fetchAndAppendQuestions_appends [OF f] obtain new where
    n: "s' = s\<lparr>quizData := quizData s @ new,
                 previousQuestions := previousQuestions s @ map question new\<rparr>" by blast
  with len have "new = []" by simp
  with n show ?thesis by simp
qed

lemma fetchAndAppendQuestions_hard:
  assumes f: "fetchAndAppendQuestions r s = (ok, s)"
    and e: "quizData s = []"
  shows "\<not> ok"
proof (cases r)
  case NetworkError
  with f show ?thesis by (simp add: fetchAndAppendQuestions_def)
next
  case (Response okf data)
  let ?arr = "orElse (orElse (getProp data ''questions'') (getProp data ''quiz'')) (JArr [])"
  show ?thesis
  proof (cases "\<not> okf \<or> nullish data \<or> \<not> isArray ?arr \<or> length (elems ?arr) = 0")
    case True
    with f Response show ?thesis
      by (auto simp add: fetchAndAppendQuestions_def Let_def split: if_splits)
  next
    case False
    obtain e' n x where a: "appendNew (elems ?arr) 0 s = (e', n, x)"
      by (cases "appendNew (elems ?arr) 0 s") blast
    from f Response False a have x: "x = s"
      by (cases e') (simp_all add: fetchAndAppendQuestions_def Let_def split: if_splits)
    from appendNew_count [OF a] x have n0: "n = 0" by simp
    from f Response False a x n0 e show ?thesis
      by (cases e') (simp_all add: fetchAndAppendQuestions_def Let_def split: if_splits)
  qed
qed

subsection \<open>The answer index\<close>

lemma arrayIndexOf_None: "arrayIndexOf xs a = None \<longleftrightarrow> a \<notin> set xs"
  by (induction xs) auto

lemma notNum: "\<not> isNum v \<Longrightarrow> \<forall>n. v \<noteq> JNum n"
  by (cases v) simp_all

lemma clamp03_whole: "clamp03 (of_int k) \<in> {0, 1, 2, 3}"
proof -
  have "0 \<le> k \<Longrightarrow> k \<le> 3 \<Longrightarrow> k \<in> {0, 1, 2, 3}" by auto
  then show ?thesis unfolding clamp03_def by (cases "k < 0"; cases "3 < k") auto
qed

lemma notNum_case: "\<forall>n. v \<noteq> JNum n \<Longrightarrow> (case v of JNum n \<Rightarrow> f n | _ \<Rightarrow> d) = d"
  by (cases v) simp_all

lemma clientQuestion_absent:
  assumes "\<forall>n. getProp q ''answer_index'' \<noteq> JNum n" "\<forall>n. getProp q ''answerIndex'' \<noteq> JNum n"
    "\<forall>n. getProp q ''correct'' \<noteq> JNum n"
  shows "answer_index (clientQuestion q t) = 0"
  by (simp add: clientQuestion_def clientAnswerIndex_def notNum_case [OF assms(1)]
      notNum_case [OF assms(2)] notNum_case [OF assms(3)])

lemma clientQuestion_first:
  "getProp q ''answer_index'' = JNum n \<Longrightarrow> answer_index (clientQuestion q t) = clamp03 n"
  by (simp add: clientQuestion_def clientAnswerIndex_def clamp03_def)

lemma clientQuestion_second:
  assumes "\<not> isNum (getProp q ''answer_index'')" and "getProp q ''answerIndex'' = JNum n"
  shows "answer_index (clientQuestion q t) = clamp03 n"
  using assms(2)
  by (simp add: clientQuestion_def clientAnswerIndex_def clamp03_def
      notNum_case [OF notNum [OF assms(1)]])

lemma clientQuestion_third:
  assumes "\<not> isNum (getProp q ''answer_index'')" and "\<not> isNum (getProp q ''answerIndex'')"
    and "getProp q ''correct'' = JNum n"
  shows "answer_index (clientQuestion q t) = clamp03 n"
  using assms(3)
  by (simp add: clientQuestion_def clientAnswerIndex_def clamp03_def
      notNum_case [OF notNum [OF assms(1)]] notNum_case [OF notNum [OF assms(2)]])

lemma clientQuestion_none:
  assumes "\<not> isNum (getProp q ''answer_index'')" and "\<not> isNum (getProp q ''answerIndex'')"
    and "\<not> isNum (getProp q ''correct'')"
  shows "answer_index (clientQuestion q t) = 0"
  by (rule clientQuestion_absent) (rule notNum, rule assms)+

lemma normalizeItem_Inr:
  assumes "normalizeItem fmt it = Inr sq"
  shows "\<exists>opts. itemOptions fmt it = Inr opts
      \<and> options sq = (if length opts < 4 then slice (padOptions opts) 0 4
                      else if length opts > 4 then slice opts 0 4 else opts)
      \<and> answer_index sq = itemAnswerIndex it (options sq)
      \<and> itemQuestion fmt it = Inr (question sq)
      \<and> itemExplanation fmt it = Inr (explanation sq)
      \<and> \<not> nullish it"
  using assms
  by (auto simp add: normalizeItem_def ebind_def Let_def split: if_splits sum.splits)

lemma itemAnswerIndex_numeric:
  "getProp it ''answer_index'' = JNum n \<Longrightarrow> itemAnswerIndex it opts = n"
  by (simp add: itemAnswerIndex_def)

lemma itemAnswerIndex_default:
  assumes "\<forall>n. getProp it ''answer_index'' \<noteq> JNum n" "\<forall>n. getProp it ''answerIndex'' \<noteq> JNum n"
    "\<forall>a. getProp it ''answer'' = JStr a \<longrightarrow> a \<notin> set opts"
  shows "itemAnswerIndex it opts = 0"
proof -
  have "(case getProp it ''answer'' of
           JStr a \<Rightarrow> (case arrayIndexOf opts a of Some i \<Rightarrow> real i | None \<Rightarrow> 0)
         | _ \<Rightarrow> 0) = 0"
  proof (cases "getProp it ''answer''")
    case (JStr a)
    with assms(3) have "arrayIndexOf opts a = None" by (simp add: arrayIndexOf_None)
    with JStr show ?thesis by simp
  qed simp_all
  then show ?thesis
    by (simp add: itemAnswerIndex_def notNum_case [OF assms(1)] notNum_case [OF assms(2)])
qed

lemma itemAnswerIndex_second:
  assumes "\<not> isNum (getProp it ''answer_index'')" and "getProp it ''answerIndex'' = JNum n"
  shows "itemAnswerIndex it opts = n"
  using assms(2) by (simp add: itemAnswerIndex_def notNum_case [OF notNum [OF assms(1)]])

lemma itemAnswerIndex_answer:
  assumes "\<not> isNum (getProp it ''answer_index'')" and "\<not> isNum (getProp it ''answerIndex'')"
    and "getProp it ''answer'' = JStr a"
  shows "itemAnswerIndex it opts = (case arrayIndexOf opts a of Some i \<Rightarrow> real i | None \<Rightarrow> 0)"
  using assms(3)
  by (simp add: itemAnswerIndex_def notNum_case [OF notNum [OF assms(1)]]
      notNum_case [OF notNum [OF assms(2)]])

lemma itemAnswerIndex_none:
  assumes "\<not> isNum (getProp it ''answer_index'')" and "\<not> isNum (getProp it ''answerIndex'')"
    and "\<forall>a. getProp it ''answer'' = JStr a \<longrightarrow> a \<notin> set opts"
  shows "itemAnswerIndex it opts = 0"
  by (rule itemAnswerIndex_default) (rule notNum, rule assms(1), rule notNum, rule assms(2), rule assms(3))

lemma mapE_from:
  assumes "mapE f xs = Inr ys"
  shows "\<forall>y \<in> set ys. \<exists>x \<in> set xs. f x = Inr y"
  using assms
proof (induction xs arbitrary: ys)
  case Nil
  then show ?case by simp
next
  case (Cons x xs)
  then obtain y ys' where y: "f x = Inr y" "mapE f xs = Inr ys'" "ys = y # ys'"
    by (auto split: sum.splits)
  with Cons.IH [of ys'] show ?case by auto
qed

lemma normalizeQuestions_from:
  assumes "normalizeQuestions fmt (JArr its) count = Inr qs"
  shows "\<forall>sq \<in> set qs. \<exists>it \<in> set its. normalizeItem fmt it = Inr sq"
proof -
  from assms obtain ys where m: "mapE (normalizeItem fmt) its = Inr ys"
    and q: "qs = sliceTo (filter usable ys) count"
    by (auto simp: normalizeQuestions_def ebind_def split: sum.splits)
  have "set qs \<subseteq> set ys"
    unfolding q sliceTo_def using set_take_subset [of _ "filter usable ys"] by (auto split: if_splits)
  with mapE_from [OF m] show ?thesis by blast
qed

subsection \<open>Evaluating the examples\<close>

lemmas client_defs = initialSession_def plainPage_def emptyContainer_def appendOption_def step_def modalStart_def trim_def str_def isSpace_def initQuiz_def fetchBegin_def showLoading_def fetchDone_def fetchAndAppendQuestions_def nullish_def orElse_def isDup_def clientQuestion_def clientAnswerIndex_def slice_def renderAndStart_def renderQuestion_def resetTimer_def startTimer_def setInterval_def keydown_def onOptionClicked_def buttonAt_def dropAt_def runCallback_def showAnswerFeedback_def markCorrect_def markIncorrect_def freshButton_def push_def Let_def

lemmas server_defs = normalizeItem_def nullish_def itemQuestion_def itemOptions_def
  itemAnswerIndex_def itemExplanation_def ebind_def orElse_def trim_def isSpace_def str_def
  usable_def sliceTo_def slice_def Let_def

lemma oneQuestion_eq:
  "oneQuestion = \<lparr>quizData = [\<lparr>question = str ''A'', options = [JStr (str ''a''), JStr (str ''b''), JStr (str ''c''), JStr (str ''d'')], answer_index = 0, explanation = JStr []\<rparr>],
     currentQuestionIndex = 0, selectedAnswers = [0 \<mapsto> 0], score = 1,
     timeLeft = 30, timerHandle = Some 1, previousQuestions = [str ''A''], currentTopic = str ''Math'',
     currentCount = 1, activeSection = Quiz,
     buttons = [\<lparr>selected = True, correct = True, incorrect = False, inert = True\<rparr>,
                \<lparr>selected = False, correct = False, incorrect = False, inert = True\<rparr>,
                \<lparr>selected = False, correct = False, incorrect = False, inert = True\<rparr>,
                \<lparr>selected = False, correct = False, incorrect = False, inert = True\<rparr>],
     intervals = [1], timeouts = [AutoNext],
     nextHandle = 2, inflight = [], page = plainPage, strayOverlay = False\<rparr>"
  by (simp add: oneQuestion_def client_defs mcq_def payload_def)

lemma onSecond_eq:
  "run onSecond (initialSession plainPage Home)
   = \<lparr>quizData = [\<lparr>question = str ''A'', options = [JStr (str ''a''), JStr (str ''b''), JStr (str ''c''), JStr (str ''d'')], answer_index = 0, explanation = JStr []\<rparr>,
                  \<lparr>question = str ''B'', options = [JStr (str ''a''), JStr (str ''b''), JStr (str ''c''), JStr (str ''d'')], answer_index = 1, explanation = JStr []\<rparr>],
     currentQuestionIndex = 1, selectedAnswers = Map.empty, score = 0,
     timeLeft = 30, timerHandle = Some 2, previousQuestions = [str ''A'', str ''B''], currentTopic = str ''Math'',
     currentCount = 2, activeSection = Quiz,
     buttons = [freshButton, freshButton, freshButton, freshButton],
     intervals = [2], timeouts = [],
     nextHandle = 3, inflight = [], page = plainPage, strayOverlay = False\<rparr>"
  by (simp add: onSecond_def client_defs mcq_def payload_def stopTimer_def clearInterval_def nextQuestion_def)

lemma served7_normalized: "normalizeItem wholeNumber (mcq ''A'' 7) = Inr served7"
  by (simp add: server_defs mcq_def served7_def)

section \<open>Properties of the server\<close>

subsection \<open>Well-formed items\<close>




lemma trim_Nil [simp]: "trim [] = []"
  by (simp add: trim_def)



lemma answer_index_expected [simp]: "answer_index (expected it) = numOf (getProp it ''answer_index'')"
  by (simp add: expected_def)

subsection \<open>Searching a text\<close>

lemma startsWith_Nil [simp]: "startsWith pat [] \<longleftrightarrow> pat = []"
  by (auto simp: startsWith_def)

lemma startsWith_append [simp]: "startsWith pat (pat @ s)"
  by (simp add: startsWith_def)

lemma startsWith_hd: "startsWith pat s \<Longrightarrow> pat \<noteq> [] \<Longrightarrow> s \<noteq> [] \<and> hd s = hd pat"
  by (cases pat; cases s) (auto simp: startsWith_def)

lemma startsWith_nth: "startsWith pat s \<Longrightarrow> i < length pat \<Longrightarrow> i < length s \<and> s ! i = pat ! i"
  unfolding startsWith_def
  by (metis length_take min_less_iff_conj nth_take)

lemma indexFrom_absent:
  assumes "pat \<noteq> []" and "hd pat \<notin> set s"
  shows "indexFrom pat s i = None"
  using assms(2)
proof (induction s arbitrary: i)
  case Nil
  with assms(1) show ?case by simp
next
  case (Cons c cs)
  have "\<not> startsWith pat (c # cs)"
  proof
    assume "startsWith pat (c # cs)"
    from startsWith_hd [OF this assms(1)] have "c = hd pat" by simp
    with Cons.prems show False by simp
  qed
  with Cons show ?case by simp
qed

lemma indexFrom_first:
  assumes "k \<le> length s" and "startsWith pat (drop k s)"
    and "\<forall>m<k. \<not> startsWith pat (drop m s)"
  shows "indexFrom pat s i = Some (i + k)"
  using assms
proof (induction s arbitrary: i k)
  case Nil
  then show ?case by simp
next
  case (Cons c cs)
  show ?case
  proof (cases k)
    case 0
    with Cons.prems show ?thesis by simp
  next
    case (Suc k')
    with Cons.prems have n: "\<not> startsWith pat (c # cs)" by force
    have "indexFrom pat cs (Suc i) = Some (Suc i + k')"
    proof (rule Cons.IH)
      show "k' \<le> length cs" using Cons.prems(1) Suc by simp
      show "startsWith pat (drop k' cs)" using Cons.prems(2) Suc by simp
      show "\<forall>m<k'. \<not> startsWith pat (drop m cs)"
      proof (intro allI impI)
        fix m assume "m < k'"
        then have "Suc m < k" using Suc by simp
        with Cons.prems(3) have "\<not> startsWith pat (drop (Suc m) (c # cs))" by blast
        then show "\<not> startsWith pat (drop m cs)" by simp
      qed
    qed
    with n Suc show ?thesis by simp
  qed
qed

lemma lastIndexFrom_None:
  assumes "\<forall>m\<le>length s. \<not> startsWith pat (drop m s)"
  shows "lastIndexFrom pat s i = None"
  using assms
proof (induction s arbitrary: i)
  case Nil
  then show ?case by simp
next
  case (Cons c cs)
  have n: "\<not> startsWith pat (c # cs)" using Cons.prems by force
  have "lastIndexFrom pat cs (Suc i) = None"
  proof (rule Cons.IH, intro allI impI)
    fix m assume "m \<le> length cs"
    then have "Suc m \<le> length (c # cs)" by simp
    with Cons.prems have "\<not> startsWith pat (drop (Suc m) (c # cs))" by blast
    then show "\<not> startsWith pat (drop m cs)" by simp
  qed
  with n show ?case by simp
qed

lemma lastIndexFrom_last:
  assumes "k \<le> length s" and "startsWith pat (drop k s)"
    and "\<forall>m. k < m \<and> m \<le> length s \<longrightarrow> \<not> startsWith pat (drop m s)"
  shows "lastIndexFrom pat s i = Some (i + k)"
  using assms
proof (induction s arbitrary: i k)
  case Nil
  then show ?case by simp
next
  case (Cons c cs)
  show ?case
  proof (cases k)
    case 0
    have "lastIndexFrom pat cs (Suc i) = None"
    proof (rule lastIndexFrom_None, intro allI impI)
      fix m assume "m \<le> length cs"
      then have "k < Suc m \<and> Suc m \<le> length (c # cs)" using 0 by simp
      with Cons.prems(3) have "\<not> startsWith pat (drop (Suc m) (c # cs))" by blast
      then show "\<not> startsWith pat (drop m cs)" by simp
    qed
    with Cons.prems(2) 0 show ?thesis by simp
  next
    case (Suc k')
    have "lastIndexFrom pat cs (Suc i) = Some (Suc i + k')"
    proof (rule Cons.IH)
      show "k' \<le> length cs" using Cons.prems(1) Suc by simp
      show "startsWith pat (drop k' cs)" using Cons.prems(2) Suc by simp
      show "\<forall>m. k' < m \<and> m \<le> length cs \<longrightarrow> \<not> startsWith pat (drop m cs)"
      proof (intro allI impI)
        fix m assume "k' < m \<and> m \<le> length cs"
        then have "k < Suc m \<and> Suc m \<le> length (c # cs)" using Suc by simp
        with Cons.prems(3) have "\<not> startsWith pat (drop (Suc m) (c # cs))" by blast
        then show "\<not> startsWith pat (drop m cs)" by simp
      qed
    qed
    with Suc show ?thesis by simp
  qed
qed

lemma slice_middle: "slice (a @ p @ b) (length a) (length a + length p) = p"
  by (simp add: slice_def)

lemma fence_eq: "str ''```json'' = [96, 96, 96, 106, 115, 111, 110]" "str ''```'' = [96, 96, 96]"
  by (simp_all add: str_def)

lemma startsWith_single: "startsWith [c] s \<longleftrightarrow> s \<noteq> [] \<and> hd s = c"
  by (cases s) (auto simp: startsWith_def)

lemma indexOf_bracket:
  assumes "c \<notin> set a"
  shows "indexOf [c] (a @ c # rest) = Some (length a)"
proof -
  have "indexFrom [c] (a @ c # rest) 0 = Some (0 + length a)"
  proof (rule indexFrom_first)
    show "length a \<le> length (a @ c # rest)" by simp
    show "startsWith [c] (drop (length a) (a @ c # rest))" by (simp add: startsWith_single)
    show "\<forall>m<length a. \<not> startsWith [c] (drop m (a @ c # rest))"
    proof (intro allI impI)
      fix m assume m: "m < length a"
      then have "hd (drop m (a @ c # rest)) = a ! m" by (simp add: hd_drop_conv_nth nth_append)
      moreover have "a ! m \<noteq> c" using assms m by (metis nth_mem)
      ultimately show "\<not> startsWith [c] (drop m (a @ c # rest))" by (simp add: startsWith_single)
    qed
  qed
  then show ?thesis by (simp add: indexOf_def)
qed

lemma lastIndexOf_bracket:
  assumes "c \<notin> set b"
  shows "lastIndexOf [c] (pre @ c # b) = Some (length pre)"
proof -
  have "lastIndexFrom [c] (pre @ c # b) 0 = Some (0 + length pre)"
  proof (rule lastIndexFrom_last)
    show "length pre \<le> length (pre @ c # b)" by simp
    show "startsWith [c] (drop (length pre) (pre @ c # b))" by (simp add: startsWith_single)
    show "\<forall>m. length pre < m \<and> m \<le> length (pre @ c # b) \<longrightarrow> \<not> startsWith [c] (drop m (pre @ c # b))"
    proof (intro allI impI)
      fix m assume m: "length pre < m \<and> m \<le> length (pre @ c # b)"
      then obtain j where j: "m = length pre + Suc j" by (metis less_imp_Suc_add add_Suc_right)
      then have d: "drop m (pre @ c # b) = drop j b" by simp
      show "\<not> startsWith [c] (drop m (pre @ c # b))"
      proof
        assume "startsWith [c] (drop m (pre @ c # b))"
        then have "startsWith [c] (drop j b)" by (simp only: d)
        then have "drop j b \<noteq> [] \<and> hd (drop j b) = c"
          using startsWith_single [of c "drop j b"] by blast
        then have "c \<in> set (drop j b)" by (metis list.set_sel(1))
        then have "c \<in> set b" by (rule in_set_dropD)
        with assms show False by blast
      qed
    qed
  qed
  then show ?thesis by (simp add: lastIndexOf_def)
qed

lemma extractJsonArray_located:
  assumes "91 \<notin> set a" and "93 \<notin> set b"
  shows "extractJsonArrayFromText parse (a @ (91 # mid @ [93]) @ b)
       = (case parse (cleanJson (91 # mid @ [93])) of Some v \<Rightarrow> v | None \<Rightarrow> JNull)"
proof -
  let ?p = "91 # mid @ [93]"
  have i: "indexOf [91] (a @ ?p @ b) = Some (length a)"
    using indexOf_bracket [OF assms(1), of "mid @ [93] @ b"] by simp
  have l: "lastIndexOf [93] (a @ ?p @ b) = Some (length a + length mid + 1)"
    using lastIndexOf_bracket [OF assms(2), of "a @ 91 # mid"] by simp
  have s: "slice (a @ ?p @ b) (length a) (length a + length mid + 1 + 1) = ?p"
    using slice_middle [of a ?p b] by (simp add: add.assoc)
  show ?thesis
    by (simp only: extractJsonArrayFromText_def i l Let_def option.case s) simp
qed

lemma indexOf_fence:
  assumes "pat \<noteq> []" and "hd pat \<notin> set a"
  shows "indexOf pat (a @ pat @ rest) = Some (length a)"
proof -
  have "indexFrom pat (a @ pat @ rest) 0 = Some (0 + length a)"
  proof (rule indexFrom_first)
    show "length a \<le> length (a @ pat @ rest)" by simp
    show "startsWith pat (drop (length a) (a @ pat @ rest))" by simp
    show "\<forall>m<length a. \<not> startsWith pat (drop m (a @ pat @ rest))"
    proof (intro allI impI notI)
      fix m assume m: "m < length a" and s: "startsWith pat (drop m (a @ pat @ rest))"
      from startsWith_hd [OF s assms(1)] have "hd (drop m (a @ pat @ rest)) = hd pat" by blast
      moreover have "hd (drop m (a @ pat @ rest)) = a ! m" using m by (simp add: hd_drop_conv_nth nth_append)
      moreover have "a ! m \<in> set a" using m by simp
      ultimately show False using assms(2) by simp
    qed
  qed
  then show ?thesis by (simp add: indexOf_def)
qed

lemma lastIndexOf_ticks:
  fixes b pre :: "nat list"
  assumes "96 \<notin> set b"
  shows "lastIndexOf [96, 96, 96] (pre @ [96, 96, 96] @ b) = Some (length pre)"
proof -
  let ?T = "[96, 96, 96] :: nat list"
  have "lastIndexFrom ?T (pre @ ?T @ b) 0 = Some (0 + length pre)"
  proof (rule lastIndexFrom_last)
    show "length pre \<le> length (pre @ ?T @ b)" by simp
    show "startsWith ?T (drop (length pre) (pre @ ?T @ b))" by (simp add: startsWith_def)
    show "\<forall>m. length pre < m \<and> m \<le> length (pre @ ?T @ b) \<longrightarrow> \<not> startsWith ?T (drop m (pre @ ?T @ b))"
    proof (intro allI impI notI)
      fix m assume m: "length pre < m \<and> m \<le> length (pre @ ?T @ b)"
        and s: "startsWith ?T (drop m (pre @ ?T @ b))"
      from m obtain j where j: "m = length pre + Suc j" by (metis less_imp_Suc_add add_Suc_right)
      have d: "drop m (pre @ ?T @ b) = drop (Suc j) (?T @ b)" using j by simp
      from s have s': "startsWith ?T (drop (Suc j) (?T @ b))" by (simp only: d)
      from startsWith_nth [OF s', of 2] have n: "2 < length (drop (Suc j) (?T @ b))"
        "drop (Suc j) (?T @ b) ! 2 = 96" by simp_all
      have "drop (Suc j) (?T @ b) ! 2 = b ! j"
        using n(1) by (simp add: nth_append)
      moreover have "j < length b" using n(1) by simp
      ultimately have "96 \<in> set b" using n(2) by (metis nth_mem)
      with assms show False by blast
    qed
  qed
  then show ?thesis by (simp add: lastIndexOf_def)
qed

lemma extractJson_fenced:
  assumes "96 \<notin> set a" and "96 \<notin> set b"
  shows "extractJsonFromText parse (a @ str ''```json'' @ p @ str ''```'' @ b)
       = (case parse (trim p) of Some v \<Rightarrow> v | None \<Rightarrow> JNull)"
proof -
  let ?F = "[96, 96, 96, 106, 115, 111, 110] :: nat list"
  let ?T = "[96, 96, 96] :: nat list"
  let ?text = "a @ ?F @ p @ ?T @ b"
  have i: "indexOf ?F ?text = Some (length a)"
    using indexOf_fence [of ?F a "p @ ?T @ b"] assms(1) by simp
  have l: "lastIndexOf ?T ?text = Some (length a + 7 + length p)"
    using lastIndexOf_ticks [OF assms(2), of "a @ ?F @ p"] by simp
  have s: "slice ?text (length a + 7) (length a + 7 + length p) = p"
    by (simp add: slice_def)
  have ne: "?text \<noteq> []" by simp
  show ?thesis
    unfolding fence_eq
    by (simp only: extractJsonFromText_def fence_eq i l option.case s ne if_False)
qed

subsection \<open>Texts without a payload, and cleaning\<close>

lemma nothingLocated_null:
  "nothingLocated parse responseText \<Longrightarrow> extractJsonFromText parse responseText = JNull"
  by (simp add: nothingLocated_def extractJsonFromText_def split: option.splits)

lemma nothingLocated2_null:
  "nothingLocated2 parse rawText \<Longrightarrow> extractJsonArrayFromText parse rawText = JNull"
  by (simp add: nothingLocated2_def extractJsonArrayFromText_def Let_def split: option.splits)

lemma normalizeQuestions_nonarray: "\<not> isArray v \<Longrightarrow> normalizeQuestions fmt v count = Inr []"
  by (cases v) (simp_all add: normalizeQuestions_def)

text \<open>Cleaning leaves no curly quote.\<close>

lemma set_removeFences: "set (removeFences s) \<subseteq> set s"
proof (induction s rule: removeFences.induct)
  case 1
  then show ?case by simp
next
  case (2 c cs)
  have d: "set (drop n cs) \<subseteq> set cs" for n by (rule set_drop_subset)
  show ?case
  proof (cases "startsWith (str ''```json'') (c # cs)")
    case True
    with 2(1) d [of 6] show ?thesis by auto
  next
    case f: False
    show ?thesis
    proof (cases "startsWith (str ''```'') (c # cs)")
      case True
      with f 2(2) d [of 2] show ?thesis by auto
    next
      case False
      with f 2(3) show ?thesis by auto
    qed
  qed
qed

lemma set_dropTrailingCommas: "set (dropTrailingCommas s) \<subseteq> set s"
  by (induction s rule: dropTrailingCommas.induct) auto

lemma set_crlfToLf: "set (crlfToLf s) \<subseteq> set s"
  by (induction s rule: crlfToLf.induct) auto

lemma set_collapseNewlines: "set (collapseNewlines s) \<subseteq> set s"
  by (induction s rule: collapseNewlines.induct) auto

lemma set_trim: "set (trim s) \<subseteq> set s"
proof -
  have "set (trim s) = set (dropWhile isSpace (rev (dropWhile isSpace s)))" by (simp add: trim_def)
  also have "\<dots> \<subseteq> set (rev (dropWhile isSpace s))" by (rule set_dropWhileD [THEN subsetI])
  also have "\<dots> \<subseteq> set s" using set_dropWhileD [of _ isSpace s] by auto
  finally show ?thesis .
qed

lemma set_straightenQuotes:
  "set (straightenQuotes s) \<inter> {8216, 8217, 8220, 8221} = {}"
  by (auto simp: straightenQuotes_def)

lemma cleanJson_no_curly: "set (cleanJson s) \<inter> {8216, 8217, 8220, 8221} = {}"
proof -
  have "set (cleanJson s) \<subseteq> set (straightenQuotes (removeFences s))"
    unfolding cleanJson_def
    using set_trim set_collapseNewlines set_crlfToLf set_dropTrailingCommas
    by (meson subset_trans)
  with set_straightenQuotes [of "removeFences s"] show ?thesis by blast
qed

lemma dropTrailingCommas_comma:
  assumes "list_all isSpace w" and "c = 125 \<or> c = 93"
  shows "dropTrailingCommas (44 # w @ c # rest) = dropTrailingCommas (w @ c # rest)"
proof -
  have ns: "\<not> isSpace c" using assms(2) by (auto simp: isSpace_def)
  have "dropWhile isSpace (w @ c # rest) = c # rest"
    using assms(1) ns by (simp add: list_all_iff dropWhile_append)
  with assms(2) show ?thesis by auto
qed

text \<open>What cleaning does to fence markers, curly quotes and trailing commas.\<close>

lemma straightenQuotes_map: "straightenQuotes s = map straight s"
  by (induction s) (simp_all add: straightenQuotes_def straight_def)

lemma startsWith_sep:
  assumes "c \<notin> set pat"
  shows "startsWith pat (x @ c # y) \<longleftrightarrow> startsWith pat x"
proof (cases "length pat \<le> length x")
  case True
  then show ?thesis by (simp add: startsWith_def)
next
  case False
  then have l: "length x < length pat" by simp
  have "\<not> startsWith pat x"
  proof
    assume "startsWith pat x"
    then have "take (length pat) x = pat" by (simp add: startsWith_def)
    then have "length (take (length pat) x) = length pat" by simp
    with l show False by simp
  qed
  moreover have "\<not> startsWith pat (x @ c # y)"
  proof
    assume "startsWith pat (x @ c # y)"
    then have e: "take (length pat) (x @ c # y) = pat" by (simp add: startsWith_def)
    from l have "take (length pat) (x @ c # y) ! length x = c"
      by (simp add: nth_append)
    with e have "pat ! length x = c" by simp
    moreover from l have "pat ! length x \<in> set pat" by simp
    ultimately show False using assms by simp
  qed
  ultimately show ?thesis by simp
qed

lemma markers: "set (str ''```json'') = {96, 106, 115, 111, 110}" "set (str ''```'') = {96}"
  "length (str ''```json'') = 7" "length (str ''```'') = 3"
  by (auto simp: str_def)

lemma removeFences_sep:
  assumes "c \<notin> {96, 106, 115, 111, 110}"
  shows "removeFences (x @ c # y) = removeFences x @ c # removeFences y"
proof (induction "length x" arbitrary: x rule: less_induct)
  case less
  have c1: "c \<notin> set (str ''```json'')" and c2: "c \<notin> set (str ''```'')"
    using assms by (simp_all add: markers)
  show ?case
  proof (cases x)
    case Nil
    have "\<not> startsWith (str ''```json'') (c # y)" "\<not> startsWith (str ''```'') (c # y)"
      using startsWith_sep [OF c1, of "[]" y] startsWith_sep [OF c2, of "[]" y]
      by (simp_all add: str_def)
    with Nil show ?thesis by simp
  next
    case (Cons d ds)
    have s1: "startsWith (str ''```json'') ((d # ds) @ c # y) \<longleftrightarrow> startsWith (str ''```json'') (d # ds)"
      by (rule startsWith_sep [OF c1])
    have s2: "startsWith (str ''```'') ((d # ds) @ c # y) \<longleftrightarrow> startsWith (str ''```'') (d # ds)"
      by (rule startsWith_sep [OF c2])
    show ?thesis
    proof (cases "startsWith (str ''```json'') (d # ds)")
      case True
      then have "take 7 (d # ds) = str ''```json''" by (simp add: startsWith_def markers)
      then have "length (take 7 (d # ds)) = 7" by (simp add: markers)
      then have "7 \<le> length (d # ds)" by simp
      then have l: "6 \<le> length ds" by simp
      then have "length (drop 6 ds) < length x" using Cons by simp
      from less [OF this] have "removeFences (drop 6 ds @ c # y)
          = removeFences (drop 6 ds) @ c # removeFences y" .
      with True s1 l Cons show ?thesis by simp
    next
      case f: False
      show ?thesis
      proof (cases "startsWith (str ''```'') (d # ds)")
        case True
        then have "take 3 (d # ds) = str ''```''" by (simp add: startsWith_def markers)
        then have "length (take 3 (d # ds)) = 3" by (simp add: markers)
        then have "3 \<le> length (d # ds)" by simp
        then have l: "2 \<le> length ds" by simp
        then have "length (drop 2 ds) < length x" using Cons by simp
        from less [OF this] have "removeFences (drop 2 ds @ c # y)
            = removeFences (drop 2 ds) @ c # removeFences y" .
        with True f s1 s2 l Cons show ?thesis by simp
      next
        case False
        have "length ds < length x" using Cons by simp
        from less [OF this] have "removeFences (ds @ c # y) = removeFences ds @ c # removeFences y" .
        with False f s1 s2 Cons show ?thesis by simp
      qed
    qed
  qed
qed

lemma removeFences_plain: "96 \<notin> set x \<Longrightarrow> removeFences (x @ y) = x @ removeFences y"
proof (induction x)
  case Nil
  then show ?case by simp
next
  case (Cons c cs)
  then have "c \<noteq> 96" by simp
  then have "\<not> startsWith (str ''```json'') (c # cs @ y)" "\<not> startsWith (str ''```'') (c # cs @ y)"
    by (auto simp: startsWith_def str_def)
  with Cons show ?case by simp
qed

lemma removeFences_id: "96 \<notin> set x \<Longrightarrow> removeFences x = x"
  using removeFences_plain [of x "[]"] by simp

lemma removeFences_json: "removeFences (str ''```json'' @ y) = removeFences y"
  by (simp add: str_def startsWith_def)

lemma removeFences_ticks:
  "\<not> startsWith (str ''json'') y \<Longrightarrow> removeFences (str ''```'' @ y) = removeFences y"
  by (simp add: str_def startsWith_def)

lemma map_straight_eq:
  assumes "set pat \<inter> {34, 39, 8216, 8217, 8220, 8221} = {}"
  shows "map straight xs = pat \<longleftrightarrow> xs = pat"
  using assms
proof (induction xs arbitrary: pat)
  case Nil
  then show ?case by auto
next
  case (Cons x xs)
  show ?case
  proof (cases pat)
    case Nil
    then show ?thesis by simp
  next
    case (Cons p ps)
    with Cons.prems have p: "p \<notin> {34, 39, 8216, 8217, 8220, 8221}"
      and ps: "set ps \<inter> {34, 39, 8216, 8217, 8220, 8221} = {}"
      by auto
    from p have "straight x = p \<longleftrightarrow> x = p" by (auto simp: straight_def)
    with Cons.IH [OF ps] Cons show ?thesis by simp
  qed
qed

lemma startsWith_straight:
  assumes "set pat \<inter> {34, 39, 8216, 8217, 8220, 8221} = {}"
  shows "startsWith pat (map straight s) \<longleftrightarrow> startsWith pat s"
  unfolding startsWith_def take_map by (rule map_straight_eq [OF assms])

lemma removeFences_straight: "removeFences (map straight s) = map straight (removeFences s)"
proof (induction s rule: removeFences.induct)
  case 1
  then show ?case by simp
next
  case (2 c cs)
  have a: "startsWith (str ''```json'') (map straight (c # cs)) \<longleftrightarrow> startsWith (str ''```json'') (c # cs)"
    by (rule startsWith_straight) (simp add: markers)
  have b: "startsWith (str ''```'') (map straight (c # cs)) \<longleftrightarrow> startsWith (str ''```'') (c # cs)"
    by (rule startsWith_straight) (simp add: markers)
  show ?case
  proof (cases "startsWith (str ''```json'') (c # cs)")
    case True
    with a 2(1) show ?thesis by (simp add: drop_map)
  next
    case f: False
    show ?thesis
    proof (cases "startsWith (str ''```'') (c # cs)")
      case True
      with f a b 2(2) show ?thesis by (simp add: drop_map)
    next
      case False
      with f a b 2(3) show ?thesis by simp
    qed
  qed
qed

lemma straight_idem: "straight (straight u) = straight u"
  by (simp add: straight_def)

lemma cleanJson_straight: "cleanJson (map straight s) = cleanJson s"
  by (simp add: cleanJson_def straightenQuotes_map removeFences_straight straight_idem comp_def)

lemma indexFrom_map:
  assumes "\<And>u. f u = b \<longleftrightarrow> u = b"
  shows "indexFrom [b] (map f s) i = indexFrom [b] s i"
  by (induction s arbitrary: i) (simp_all add: startsWith_def assms)

lemma lastIndexFrom_map:
  assumes "\<And>u. f u = b \<longleftrightarrow> u = b"
  shows "lastIndexFrom [b] (map f s) i = lastIndexFrom [b] s i"
  by (induction s arbitrary: i) (simp_all add: startsWith_def assms)

lemma extract_straight:
  "extractJsonArrayFromText parse (map straight t) = extractJsonArrayFromText parse t"
proof -
  have 1: "indexOf [91] (map straight t) = indexOf [91] t"
    unfolding indexOf_def by (rule indexFrom_map) (auto simp: straight_def)
  have 2: "lastIndexOf [93] (map straight t) = lastIndexOf [93] t"
    unfolding lastIndexOf_def by (rule lastIndexFrom_map) (auto simp: straight_def)
  have 3: "slice (map straight t) a b = map straight (slice t a b)" for a b
    by (simp add: slice_def take_map drop_map)
  show ?thesis
    by (simp add: extractJsonArrayFromText_def 1 2 3 cleanJson_straight Let_def
        split: option.splits)
qed

lemma dropWhile_sep:
  "\<not> isSpace d \<Longrightarrow> dropWhile isSpace (x @ d # y) = dropWhile isSpace (x @ [d]) @ y"
  by (induction x) simp_all

lemma dropTrailingCommas_prefix:
  assumes "\<not> isSpace d"
  shows "\<exists>p. \<forall>y. dropTrailingCommas (x @ d # y) = p @ dropTrailingCommas (d # y)"
proof (induction x)
  case Nil
  show ?case by (intro exI [of _ "[]"]) simp
next
  case (Cons e x)
  then obtain p where p: "\<And>y. dropTrailingCommas (x @ d # y) = p @ dropTrailingCommas (d # y)"
    by blast
  have ne: "dropWhile isSpace (x @ [d]) \<noteq> []" using assms by (induction x) simp_all
  define h where "h = hd (dropWhile isSpace (x @ [d]))"
  have c: "(case dropWhile isSpace (x @ d # y) of [] \<Rightarrow> False | a # as \<Rightarrow> a = 125 \<or> a = 93)
      = (h = 125 \<or> h = 93)" for y
  proof -
    from ne obtain a as where "dropWhile isSpace (x @ [d]) = a # as"
      by (cases "dropWhile isSpace (x @ [d])") auto
    then show ?thesis using dropWhile_sep [OF assms, of x y] by (simp add: h_def)
  qed
  show ?case
  proof (cases "e = 44 \<and> (h = 125 \<or> h = 93)")
    case True
    then show ?thesis using p c by (intro exI [of _ p]) simp
  next
    case False
    then show ?thesis using p c by (intro exI [of _ "e # p"]) auto
  qed
qed

lemma dropTrailingCommas_inner:
  assumes "\<not> isSpace d" and "d \<noteq> 44" and "list_all isSpace w" and "c = 125 \<or> c = 93"
  shows "dropTrailingCommas (x @ d # 44 # w @ c # rest) = dropTrailingCommas (x @ d # w @ c # rest)"
proof -
  from dropTrailingCommas_prefix [OF assms(1), of x] obtain p where
    p: "\<And>y. dropTrailingCommas (x @ d # y) = p @ dropTrailingCommas (d # y)"
    by blast
  have "dropTrailingCommas (d # 44 # w @ c # rest) = d # dropTrailingCommas (44 # w @ c # rest)"
    using assms(2) by simp
  also have "\<dots> = d # dropTrailingCommas (w @ c # rest)"
    by (simp only: dropTrailingCommas_comma [OF assms(3,4)])
  also have "\<dots> = dropTrailingCommas (d # w @ c # rest)"
    using assms(2) by simp
  finally show ?thesis by (simp only: p)
qed

lemma isSpace_plain: "isSpace u \<Longrightarrow> u \<notin> {96, 106, 115, 111, 110} \<and> straight u = u \<and> u \<noteq> 44"
  by (auto simp: isSpace_def straight_def)

lemma cleanJson_comma:
  assumes "\<not> isSpace d" and "d \<noteq> 44" and "d \<notin> set (str ''```json'')"
    and "list_all isSpace w" and "c = 125 \<or> c = 93"
  shows "cleanJson (x @ d # 44 # w @ c # rest) = cleanJson (x @ d # w @ c # rest)"
proof -
  have d: "d \<notin> {96, 106, 115, 111, 110}" using assms(3) by (simp add: markers)
  have c: "c \<notin> {96, 106, 115, 111, 110}" "straight c = c" using assms(5) by (auto simp: straight_def)
  have w: "96 \<notin> set w" "map straight w = w"
    using assms(4) isSpace_plain by (auto simp: list_all_iff map_idI)
  have r0: "removeFences (w @ c # rest) = w @ c # removeFences rest"
    using removeFences_plain [OF w(1), of "c # rest"] removeFences_sep [OF c(1), of "[]" rest]
    by simp
  have r1: "removeFences (x @ d # 44 # w @ c # rest)
      = removeFences x @ d # 44 # w @ c # removeFences rest"
    using removeFences_sep [OF d, of x "44 # w @ c # rest"]
      removeFences_sep [of 44 "[]" "w @ c # rest"] r0
    by simp
  have r2: "removeFences (x @ d # w @ c # rest) = removeFences x @ d # w @ c # removeFences rest"
    using removeFences_sep [OF d, of x "w @ c # rest"] r0 by simp
  have sd: "\<not> isSpace (straight d)" "straight d \<noteq> 44"
    using assms(1,2) by (auto simp: straight_def isSpace_def)
  have s44: "straight 44 = 44" by (simp add: straight_def)
  have "dropTrailingCommas (straightenQuotes (removeFences (x @ d # 44 # w @ c # rest)))
      = dropTrailingCommas (straightenQuotes (removeFences (x @ d # w @ c # rest)))"
    unfolding r1 r2 straightenQuotes_map
    using dropTrailingCommas_inner [OF sd assms(4,5),
        of "map straight (removeFences x)" "map straight (removeFences rest)"]
    by (simp add: w c s44)
  then show ?thesis by (simp add: cleanJson_def)
qed

lemma cleanJson_json:
  "96 \<notin> set x \<Longrightarrow> cleanJson (x @ str ''```json'' @ y) = cleanJson (x @ y)"
  by (simp add: cleanJson_def removeFences_plain removeFences_json)

lemma cleanJson_ticks:
  "96 \<notin> set x \<Longrightarrow> \<not> startsWith (str ''json'') y \<Longrightarrow>
     cleanJson (x @ str ''```'' @ y) = cleanJson (x @ y)"
  by (simp add: cleanJson_def removeFences_plain removeFences_ticks)

lemma dropTrailingCommas_id: "44 \<notin> set s \<Longrightarrow> dropTrailingCommas s = s"
  by (induction s) auto

lemma crlfToLf_id: "13 \<notin> set s \<Longrightarrow> crlfToLf s = s"
  by (induction s rule: crlfToLf.induct) auto

lemma collapseNewlines_id: "10 \<notin> set s \<Longrightarrow> collapseNewlines s = s"
  by (induction s rule: collapseNewlines.induct) auto

lemma cleanJson_plain:
  assumes "set s \<inter> {96, 8216, 8217, 8220, 8221, 44, 13, 10} = {}"
  shows "cleanJson s = trim s"
proof -
  have "map straight s = s" using assms by (auto simp: straight_def intro!: map_idI)
  with assms show ?thesis
    by (simp add: cleanJson_def removeFences_id straightenQuotes_map dropTrailingCommas_id
        crlfToLf_id collapseNewlines_id)
qed

subsection \<open>The options of the first variant\<close>

lemma length_padOptions: "length (padOptions os) = max 4 (length os)"
proof (induction os rule: padOptions.induct)
  case (1 os)
  show ?case
  proof (cases "length os < 4")
    case True
    with 1 show ?thesis by (subst padOptions.simps) simp
  next
    case False
    then show ?thesis by (subst padOptions.simps) simp
  qed
qed

lemma normalizeItem_four:
  assumes "normalizeItem fmt it = Inr sq"
  shows "length (options sq) = 4"
proof -
  from normalizeItem_Inr [OF assms] obtain opts where
    "options sq = (if length opts < 4 then slice (padOptions opts) 0 4
                      else if length opts > 4 then slice opts 0 4 else opts)" by blast
  then show ?thesis by (simp add: slice_def length_padOptions)
qed

lemma mapE_all:
  assumes "mapE f xs = Inr ys" and "\<And>x y. f x = Inr y \<Longrightarrow> P y"
  shows "list_all P ys"
  using assms(1)
proof (induction xs arbitrary: ys)
  case Nil
  then show ?case by simp
next
  case (Cons x xs)
  then obtain y ys' where y: "f x = Inr y" "mapE f xs = Inr ys'" "ys = y # ys'"
    by (auto split: sum.splits)
  with Cons.IH [of ys'] assms(2) [of x y] show ?case by simp
qed

subsection \<open>Evaluating the examples of the server\<close>

lemma quizText_eq:
  "quizText = [91,123,34,113,117,101,115,116,105,111,110,34,58,34,65,34,44,34,111,112,116,105,111,110,115,34,58,91,34,97,34,44,34,98,34,44,34,99,34,44,34,100,34,93,44,34,97,110,115,119,101,114,95,105,110,100,101,120,34,58,48,125,93]"
  by (simp add: quizText_def str_def)

lemma trailingComma_split:
  \<open>trailingComma = [] @ str ''```json''
     @ str ''[{"question":"A","options":["a","b","c","d"],"answer_index":0},]'' @ str ''```'' @ []\<close>
  by (simp add: trailingComma_def str_def)

lemma extract_trailingComma: "extractJsonFromText jsonParse trailingComma = JNull"
proof -
  have \<open>jsonParse (trim (str ''[{"question":"A","options":["a","b","c","d"],"answer_index":0},]'')) = None\<close>
    by (simp add: jsonParse_def wrapped_def quizText_def str_def trim_def isSpace_def)
  then show ?thesis
    unfolding trailingComma_split
    using extractJson_fenced [of "[]" "[]" jsonParse
        \<open>str ''[{"question":"A","options":["a","b","c","d"],"answer_index":0},]''\<close>]
    by simp
qed

lemma chatty_split:
  \<open>chatty = str ''Sure! {"quiz": ''
     @ (91 # (str ''```json'' @ [123, 8220] @ str ''question'' @ [8221]
               @ str '':"A","options":["a","b","c","d",],"answer_index":0,},```'') @ [93])
     @ str ''} Enjoy.''\<close>
  by (simp add: chatty_def str_def)

lemma clean_chatty:
  \<open>cleanJson (91 # (str ''```json'' @ [123, 8220] @ str ''question'' @ [8221]
               @ str '':"A","options":["a","b","c","d",],"answer_index":0,},```'') @ [93]) = quizText\<close>
  by (simp add: cleanJson_def quizText_eq str_def startsWith_def straightenQuotes_def isSpace_def trim_def)

lemma jsonParse_quizText: "jsonParse quizText = Some quizValue"
  by (simp add: jsonParse_def wrapped_def)

lemma extract_chatty: "extractJsonArrayFromText jsonParse chatty = quizValue"
proof -
  have a: \<open>91 \<notin> set (str ''Sure! {"quiz": '') \<and> 93 \<notin> set (str ''} Enjoy.'')\<close>
    by (simp add: str_def)
  show ?thesis
    unfolding chatty_split
    using extractJsonArray_located [OF conjunct1 [OF a] conjunct2 [OF a], of jsonParse]
    by (simp only: clean_chatty jsonParse_quizText option.case)
qed

lemma extract_fencedQuiz: "extractJsonFromText jsonParse fencedQuiz = quizValue"
proof -
  have a: "96 \<notin> set (str ''Here: '') \<and> 96 \<notin> set (str '' Bye'')" by (simp add: str_def)
  have t: "trim (str '' '' @ quizText @ str '' '') = quizText"
    by (simp add: trim_def quizText_eq str_def isSpace_def)
  have "fencedQuiz = str ''Here: '' @ str ''```json'' @ (str '' '' @ quizText @ str '' '')
      @ str ''```'' @ str '' Bye''"
    by (simp add: fencedQuiz_def str_def)
  then show ?thesis
    using extractJson_fenced [OF conjunct1 [OF a] conjunct2 [OF a], of jsonParse
        "str '' '' @ quizText @ str '' ''"]
    by (simp only: t jsonParse_quizText option.case)
qed

lemma extract_quizText: "extractJsonFromText jsonParse quizText = JNull"
  by (simp add: extractJsonFromText_def quizText_eq indexOf_def startsWith_def str_def)

lemma extract_wrapped:
  "extractJsonFromText jsonParse (wrapped ''questions'') = JNull"
  "extractJsonFromText jsonParse (wrapped ''quiz'') = JNull"
  by (simp_all add: extractJsonFromText_def wrapped_def quizText_eq indexOf_def startsWith_def
      str_def)

lemma wrapped_ne: "wrapped k \<noteq> []"
  by (simp add: wrapped_def str_def)

lemma wrapped_neq: "wrapped k \<noteq> quizText"
  by (simp add: wrapped_def quizText_eq str_def)

lemma wrapped_inj: "wrapped ''questions'' \<noteq> wrapped ''quiz''"
  by (simp add: wrapped_def str_def)

lemma jsonParse_wrapped:
  "jsonParse (wrapped ''questions'') = Some (JObj [(''questions'', quizValue)])"
  "jsonParse (wrapped ''quiz'') = Some (JObj [(''quiz'', quizValue)])"
  using wrapped_neq [of "''questions''"] wrapped_neq [of "''quiz''"] wrapped_inj
  by (simp_all add: jsonParse_def)

lemma extract_bracketProse: "extractJsonArrayFromText jsonParse bracketProse = JNull"
proof -
  have a: "91 \<notin> set (str ''See '') \<and> 93 \<notin> set ([] :: jsstring)" by (simp add: str_def)
  have s: "bracketProse = str ''See '' @ (91 # (str ''1]: '' @ butlast quizText) @ [93]) @ []"
    by (simp add: bracketProse_def quizText_eq str_def)
  have c: "cleanJson (91 # (str ''1]: '' @ butlast quizText) @ [93]) = str ''[1]: '' @ quizText"
    by (simp add: cleanJson_def quizText_eq str_def startsWith_def straightenQuotes_def
        isSpace_def trim_def)
  have p: "jsonParse (str ''[1]: '' @ quizText) = None"
    by (simp add: jsonParse_def wrapped_def quizText_eq str_def)
  show ?thesis
    unfolding s
    using extractJsonArray_located [OF conjunct1 [OF a] conjunct2 [OF a], of jsonParse
        "str ''1]: '' @ butlast quizText"]
    by (simp only: c p option.case)
qed

section \<open>The claims\<close>

text \<open>
  C4. At every point of a session, no two questions of the session have the same
  trimmed text and no two ledger entries have the same trimmed text; the ledger is the
  list of the session's question texts. A fetch round appends, to both and in the order
  the provider returned them, only candidates whose trimmed text is in neither.
\<close>

theorem dedup_invariant:
  "distinct (map (trim \<circ> question) (quizData (run evs (initialSession ov sec))))
   \<and> distinct (map trim (previousQuestions (run evs (initialSession ov sec))))
   \<and> previousQuestions (run evs (initialSession ov sec))
       = map question (quizData (run evs (initialSession ov sec)))
   \<and> (\<exists>new. snd (fetchAndAppendQuestions r (run evs (initialSession ov sec)))
         = (run evs (initialSession ov sec))
             \<lparr>quizData := quizData (run evs (initialSession ov sec)) @ new,
              previousQuestions := previousQuestions (run evs (initialSession ov sec)) @ map question new\<rparr>
       \<and> subseq (map question new) (map candidateText (candidates r))
       \<and> set (map question new) \<inter> sessionTexts (run evs (initialSession ov sec)) = {})"
proof -
  let ?s = "run evs (initialSession ov sec)"
  have a: "previousQuestions ?s = map question (quizData ?s)"
    and b: "distinct (map (trim \<circ> question) (quizData ?s))"
    using run_dedup [of evs ov sec] by blast+
  have c: "distinct (map trim (previousQuestions ?s))"
    using b by (simp add: a)
  obtain ok s' where f: "fetchAndAppendQuestions r ?s = (ok, s')"
    by (cases "fetchAndAppendQuestions r ?s") blast
  have d: "\<exists>new. snd (fetchAndAppendQuestions r ?s)
         = ?s\<lparr>quizData := quizData ?s @ new,
              previousQuestions := previousQuestions ?s @ map question new\<rparr>
       \<and> subseq (map question new) (map candidateText (candidates r))
       \<and> set (map question new) \<inter> sessionTexts ?s = {}"
    using fetchAndAppendQuestions_appends [OF f] by (simp add: f)
  from b c a d show ?thesis by (intro conjI)
qed

theorem dedup_invariant_witness:
  "map question (quizData (run [ModalStart (str ''Math'') (Some 3),
        FetchAnswer 0 (payload [mcq ''A'' 0, mcq '' A '' 2, mcq ''B'' 1])] (initialSession plainPage Home)))
     = [str ''A'', str ''B'']
   \<and> previousQuestions (run [ModalStart (str ''Math'') (Some 3),
        FetchAnswer 0 (payload [mcq ''A'' 0, mcq '' A '' 2, mcq ''B'' 1])] (initialSession plainPage Home))
     = [str ''A'', str ''B'']
   \<and> map question (quizData (snd (fetchAndAppendQuestions (payload [mcq ''B'' 3, mcq ''C'' 1])
        (run [ModalStart (str ''Math'') (Some 3),
          FetchAnswer 0 (payload [mcq ''A'' 0, mcq '' A '' 2, mcq ''B'' 1])] (initialSession plainPage Home)))))
     = [str ''A'', str ''B'', str ''C'']"
  using dedup_invariant [of "[ModalStart (str ''Math'') (Some 3),
        FetchAnswer 0 (payload [mcq ''A'' 0, mcq '' A '' 2, mcq ''B'' 1])]" plainPage Home "payload [mcq ''B'' 3, mcq ''C'' 1]"]
  by (simp add: client_defs mcq_def payload_def)

text \<open>
  C5. After any sequence of events (start, next, previous, restart, and every other
  handler) at most one interval timer is alive, and it is the one whose handle the
  script holds. From there, starting the timer leaves the new interval alone alive,
  stopping it leaves none, and next, previous (from a later question) and restart
  (of a quiz whose first question can be rendered) leave no interval alive that was.
\<close>

theorem timer_exclusive:
  "length (intervals (run evs (initialSession ov sec))) \<le> 1
   \<and> set (intervals (run evs (initialSession ov sec)))
       = set_option (timerHandle (run evs (initialSession ov sec)))
   \<and> intervals (startTimer (run evs (initialSession ov sec)))
       = [nextHandle (run evs (initialSession ov sec))]
   \<and> nextHandle (run evs (initialSession ov sec)) \<notin> set (intervals (run evs (initialSession ov sec)))
   \<and> intervals (stopTimer (run evs (initialSession ov sec))) = []
   \<and> set (intervals (nextQuestion (run evs (initialSession ov sec))))
       \<inter> set (intervals (run evs (initialSession ov sec))) = {}
   \<and> (0 < currentQuestionIndex (run evs (initialSession ov sec)) \<longrightarrow>
        set (intervals (previousQuestion (run evs (initialSession ov sec))))
          \<inter> set (intervals (run evs (initialSession ov sec))) = {})
   \<and> (quizData (run evs (initialSession ov sec)) \<noteq> []
        \<and> stringifyAll (options (quizData (run evs (initialSession ov sec)) ! 0)) \<longrightarrow>
        set (intervals (restartQuiz (run evs (initialSession ov sec))))
          \<inter> set (intervals (run evs (initialSession ov sec))) = {})"
proof -
  let ?s = "run evs (initialSession ov sec)"
  have inv: "timerInv ?s"
    by (rule run_inv [OF initial_timerInv])
  have "intervals ?s = (case timerHandle ?s of None \<Rightarrow> [] | Some h \<Rightarrow> [h])"
    using inv unfolding timerInv_def by blast
  then have 1: "length (intervals ?s) \<le> 1 \<and> set (intervals ?s) = set_option (timerHandle ?s)"
    by (cases "timerHandle ?s") simp_all
  have 2: "intervals (startTimer ?s) = [nextHandle ?s]"
    using startTimer_timer [OF inv] by blast
  have 3: "nextHandle ?s \<notin> set (intervals ?s)" by (rule timerInv_fresh [OF inv])
  have 4: "intervals (stopTimer ?s) = []" using stopTimer_timer [OF inv] by blast
  have 5: "set (intervals (nextQuestion ?s)) \<inter> set (intervals ?s) = {}"
    by (rule nextQuestion_stops [OF inv])
  have 6: "0 < currentQuestionIndex ?s \<longrightarrow>
        set (intervals (previousQuestion ?s)) \<inter> set (intervals ?s) = {}"
    using previousQuestion_stops [OF inv] by blast
  have 7: "quizData ?s \<noteq> [] \<and> stringifyAll (options (quizData ?s ! 0)) \<longrightarrow>
        set (intervals (restartQuiz ?s)) \<inter> set (intervals ?s) = {}"
    using restartQuiz_stops [OF inv] by blast
  from 1 2 3 4 5 6 7 show ?thesis by (intro conjI) blast+
qed

theorem timer_exclusive_witness:
  "intervals (run onSecond (initialSession plainPage Home)) = [2]
   \<and> timerHandle (run onSecond (initialSession plainPage Home)) = Some 2
   \<and> 0 < currentQuestionIndex (run onSecond (initialSession plainPage Home))
   \<and> quizData (run onSecond (initialSession plainPage Home)) \<noteq> []
   \<and> stringifyAll (options (quizData (run onSecond (initialSession plainPage Home)) ! 0))
   \<and> intervals (startTimer (run onSecond (initialSession plainPage Home))) = [3]
   \<and> intervals (nextQuestion (run onSecond (initialSession plainPage Home))) = []
   \<and> intervals (previousQuestion (run onSecond (initialSession plainPage Home))) = [3]
   \<and> intervals (restartQuiz (run onSecond (initialSession plainPage Home))) = [3]"
proof -
  define s where "s = run onSecond (initialSession plainPage Home)"
  note eq = onSecond_eq [folded s_def]
  have 1: "intervals s = [2]" "timerHandle s = Some 2" "0 < currentQuestionIndex s"
    "quizData s \<noteq> []" "stringifyAll (options (quizData s ! 0))"
    by (simp_all add: eq)
  have 2: "intervals (startTimer s) = [3]"
    by (simp add: eq startTimer_def setInterval_def clearInterval_def Let_def)
  have 3: "intervals (nextQuestion s) = []"
    by (simp add: eq nextQuestion_def stopTimer_def clearInterval_def finishQuiz_def Let_def)
  have 4: "intervals (previousQuestion s) = [3]"
    by (simp add: eq previousQuestion_def stopTimer_def clearInterval_def renderAndStart_def
        renderQuestion_def resetTimer_def startTimer_def setInterval_def Let_def
        emptyContainer_def appendOption_def plainPage_def)
  have 5: "intervals (restartQuiz s) = [3]"
    by (simp add: eq restartQuiz_def clearInterval_def renderAndStart_def
        renderQuestion_def resetTimer_def startTimer_def setInterval_def Let_def
        emptyContainer_def appendOption_def plainPage_def)
  from timer_exclusive [of onSecond plainPage Home, folded s_def] 1 2 3 4 5
  show ?thesis unfolding s_def [symmetric] by simp
qed

text \<open>
  C1. Pressing the key of the right option twice on the one question of a quiz, before
  the feedback timeouts fire, scores that question twice: the score is 2 with one
  question in the session, and the quiz is still on that question.
\<close>

theorem rescoring:
  "score (run [ModalStart (str ''Math'') (Some 1), FetchAnswer 0 (payload [mcq ''A'' 0]),
               KeyDown Key1, KeyDown Key1, Timeout 0, Timeout 0] (initialSession plainPage Home)) = 2
   \<and> length (quizData (run [ModalStart (str ''Math'') (Some 1), FetchAnswer 0 (payload [mcq ''A'' 0]),
               KeyDown Key1, KeyDown Key1, Timeout 0, Timeout 0] (initialSession plainPage Home))) = 1
   \<and> currentQuestionIndex (run [ModalStart (str ''Math'') (Some 1), FetchAnswer 0 (payload [mcq ''A'' 0]),
               KeyDown Key1, KeyDown Key1, Timeout 0, Timeout 0] (initialSession plainPage Home)) = 0"
  by (simp add: client_defs mcq_def payload_def)

text \<open>
  C2, as the code has it. The server does not clamp: \<open>normalizeQuestions\<close> returns
  questions made by \<open>normalizeItem\<close>, which passes a numeric \<^verbatim>\<open>answer_index\<close> on as it
  is, else a numeric \<^verbatim>\<open>answerIndex\<close>, else the position of a string \<^verbatim>\<open>answer\<close> among
  the options, else 0. The client clamps: it stores the nearest number within 0 and 3
  to the first numeric one of \<^verbatim>\<open>answer_index\<close>, \<^verbatim>\<open>answerIndex\<close> and \<^verbatim>\<open>correct\<close>,
  and 0 when none is numeric: 7 becomes 3, -1 becomes 0, 5/2 stays 5/2, and a whole
  number becomes one of 0, 1, 2, 3. So every question of a session, whatever the
  events were, has an answer index within 0 and 3; and feedback on a question whose
  index is no whole number never adds to the score.
\<close>

theorem correctIndex_clamped:
  "(\<forall>q \<in> set (quizData (run evs (initialSession ov sec))). 0 \<le> answer_index q \<and> answer_index q \<le> 3)
   \<and> (getProp q1 ''answer_index'' = JNum n1 \<longrightarrow> answer_index (clientQuestion q1 t) = clamp03 n1)
   \<and> (\<not> isNum (getProp q2 ''answer_index'') \<and> getProp q2 ''answerIndex'' = JNum n2 \<longrightarrow>
        answer_index (clientQuestion q2 t) = clamp03 n2)
   \<and> (\<not> isNum (getProp q3 ''answer_index'') \<and> \<not> isNum (getProp q3 ''answerIndex'')
        \<and> getProp q3 ''correct'' = JNum n3 \<longrightarrow>
        answer_index (clientQuestion q3 t) = clamp03 n3)
   \<and> (\<not> isNum (getProp q4 ''answer_index'') \<and> \<not> isNum (getProp q4 ''answerIndex'')
        \<and> \<not> isNum (getProp q4 ''correct'') \<longrightarrow>
        answer_index (clientQuestion q4 t) = 0)
   \<and> clamp03 7 = 3 \<and> clamp03 (- 1) = 0 \<and> clamp03 (5 / 2) = 5 / 2
   \<and> clamp03 (of_int k) \<in> {0, 1, 2, 3}
   \<and> (showAnswerFeedback sel s = Inr s'
        \<and> (\<forall>j. answer_index (quizData s ! currentQuestionIndex s) \<noteq> of_int j) \<longrightarrow>
        score s' = score s)
   \<and> (normalizeQuestions fmt (JArr its) count = Inr qs \<longrightarrow>
        (\<forall>sq \<in> set qs. \<exists>it \<in> set its. normalizeItem fmt it = Inr sq))
   \<and> (normalizeItem fmt it1 = Inr sq1 \<and> getProp it1 ''answer_index'' = JNum m1 \<longrightarrow>
        answer_index sq1 = m1)
   \<and> (normalizeItem fmt it2 = Inr sq2 \<and> \<not> isNum (getProp it2 ''answer_index'')
        \<and> getProp it2 ''answerIndex'' = JNum m2 \<longrightarrow>
        answer_index sq2 = m2)
   \<and> (normalizeItem fmt it3 = Inr sq3 \<and> \<not> isNum (getProp it3 ''answer_index'')
        \<and> \<not> isNum (getProp it3 ''answerIndex'') \<and> getProp it3 ''answer'' = JStr a
        \<and> arrayIndexOf (options sq3) a = Some i \<longrightarrow>
        answer_index sq3 = real i)
   \<and> (normalizeItem fmt it4 = Inr sq4 \<and> \<not> isNum (getProp it4 ''answer_index'')
        \<and> \<not> isNum (getProp it4 ''answerIndex'')
        \<and> (\<forall>a. getProp it4 ''answer'' = JStr a \<longrightarrow> a \<notin> set (options sq4)) \<longrightarrow>
        answer_index sq4 = 0)"
proof (intro conjI impI)
  show "\<forall>q \<in> set (quizData (run evs (initialSession ov sec))). 0 \<le> answer_index q \<and> answer_index q \<le> 3"
    by (rule run_range)
next
  assume "getProp q1 ''answer_index'' = JNum n1"
  then show "answer_index (clientQuestion q1 t) = clamp03 n1" by (rule clientQuestion_first)
next
  assume "\<not> isNum (getProp q2 ''answer_index'') \<and> getProp q2 ''answerIndex'' = JNum n2"
  then show "answer_index (clientQuestion q2 t) = clamp03 n2"
    using clientQuestion_second [of q2 n2 t] by blast
next
  assume "\<not> isNum (getProp q3 ''answer_index'') \<and> \<not> isNum (getProp q3 ''answerIndex'')
        \<and> getProp q3 ''correct'' = JNum n3"
  then show "answer_index (clientQuestion q3 t) = clamp03 n3"
    using clientQuestion_third [of q3 n3 t] by blast
next
  assume "\<not> isNum (getProp q4 ''answer_index'') \<and> \<not> isNum (getProp q4 ''answerIndex'')
        \<and> \<not> isNum (getProp q4 ''correct'')"
  then show "answer_index (clientQuestion q4 t) = 0"
    using clientQuestion_none [of q4 t] by blast
next
  show "clamp03 7 = 3" "clamp03 (- 1) = 0" "clamp03 (5 / 2) = 5 / 2"
    by (simp_all add: clamp03_def)
next
  show "clamp03 (of_int k) \<in> {0, 1, 2, 3}" by (rule clamp03_whole)
next
  assume "showAnswerFeedback sel s = Inr s'
        \<and> (\<forall>j. answer_index (quizData s ! currentQuestionIndex s) \<noteq> of_int j)"
  then show "score s' = score s"
    using showAnswerFeedback_fraction [of sel s s'] by blast
next
  assume "normalizeQuestions fmt (JArr its) count = Inr qs"
  then show "\<forall>sq \<in> set qs. \<exists>it \<in> set its. normalizeItem fmt it = Inr sq"
    by (rule normalizeQuestions_from)
next
  assume a: "normalizeItem fmt it1 = Inr sq1 \<and> getProp it1 ''answer_index'' = JNum m1"
  then have "answer_index sq1 = itemAnswerIndex it1 (options sq1)"
    using normalizeItem_Inr [of fmt it1 sq1] by blast
  with a show "answer_index sq1 = m1" by (simp add: itemAnswerIndex_numeric)
next
  assume a: "normalizeItem fmt it2 = Inr sq2 \<and> \<not> isNum (getProp it2 ''answer_index'')
        \<and> getProp it2 ''answerIndex'' = JNum m2"
  then have "answer_index sq2 = itemAnswerIndex it2 (options sq2)"
    using normalizeItem_Inr [of fmt it2 sq2] by blast
  with a show "answer_index sq2 = m2" by (simp add: itemAnswerIndex_second)
next
  assume a: "normalizeItem fmt it3 = Inr sq3 \<and> \<not> isNum (getProp it3 ''answer_index'')
        \<and> \<not> isNum (getProp it3 ''answerIndex'') \<and> getProp it3 ''answer'' = JStr a
        \<and> arrayIndexOf (options sq3) a = Some i"
  then have "answer_index sq3 = itemAnswerIndex it3 (options sq3)"
    using normalizeItem_Inr [of fmt it3 sq3] by blast
  with a show "answer_index sq3 = real i"
    using itemAnswerIndex_answer [of it3 a "options sq3"] by simp
next
  assume a: "normalizeItem fmt it4 = Inr sq4 \<and> \<not> isNum (getProp it4 ''answer_index'')
        \<and> \<not> isNum (getProp it4 ''answerIndex'')
        \<and> (\<forall>a. getProp it4 ''answer'' = JStr a \<longrightarrow> a \<notin> set (options sq4))"
  then have "answer_index sq4 = itemAnswerIndex it4 (options sq4)"
    using normalizeItem_Inr [of fmt it4 sq4] by blast
  with a show "answer_index sq4 = 0"
    using itemAnswerIndex_none [of it4 "options sq4"] by simp
qed

theorem correctIndex_clamped_witness:
  "map answer_index (quizData (run startHalf (initialSession plainPage Home))) = [5 / 2]
   \<and> answer_index (clientQuestion (mcq ''A'' 7) (str ''A'')) = 3
   \<and> answer_index (clientQuestion aliasItem (str ''Q'')) = 2
   \<and> answer_index (clientQuestion correctItem (str ''Q'')) = 0
   \<and> answer_index (clientQuestion twoOptions (str ''Q'')) = 0
   \<and> (\<exists>s'. showAnswerFeedback 2 (run startHalf (initialSession plainPage Home)) = Inr s'
          \<and> score s' = 0)
   \<and> normalizeQuestions wholeNumber (JArr [mcq ''A'' 7]) 5 = Inr [served7]
   \<and> answer_index served7 = 7
   \<and> (\<exists>sq. normalizeItem wholeNumber aliasItem = Inr sq \<and> answer_index sq = 2)
   \<and> (\<exists>sq. normalizeItem wholeNumber answerItem = Inr sq \<and> answer_index sq = 1)
   \<and> (\<exists>sq. normalizeItem wholeNumber twoOptions = Inr sq \<and> answer_index sq = 0)"
proof -
  define s where "s = run startHalf (initialSession plainPage Home)"
  define sq2 where "sq2 = \<lparr>question = str ''Q'',
      options = [str ''a'', str ''b'', str ''c'', str ''d''], answer_index = 2 :: real,
      explanation = ([] :: jsstring)\<rparr>"
  define sq3 where "sq3 = \<lparr>question = str ''Q'',
      options = [str ''a'', str ''b'', str ''c'', str ''d''], answer_index = 1 :: real,
      explanation = ([] :: jsstring)\<rparr>"
  define sq4 where "sq4 = \<lparr>question = str ''Q'',
      options = [str ''a'', str ''b'', str ''Option'', str ''Option''], answer_index = 0 :: real,
      explanation = ([] :: jsstring)\<rparr>"
  have h: "map answer_index (quizData s) = [5 / 2]" "currentQuestionIndex s = 0"
    "score s = 0"
    by (simp_all add: s_def startHalf_def client_defs payload_def mcq_def)
  have frac: "\<forall>j. answer_index (quizData s ! currentQuestionIndex s) \<noteq> of_int j"
  proof
    fix j :: int
    have "quizData s \<noteq> []" using h(1) by auto
    then have "answer_index (quizData s ! currentQuestionIndex s) = 5 / 2"
      using h(1,2) by (cases "quizData s") simp_all
    moreover have "(5 / 2 :: real) \<noteq> of_int j"
    proof
      assume "(5 / 2 :: real) = of_int j"
      then have "(5 :: real) = of_int (2 * j)" by simp
      then have "(5 :: int) = 2 * j" using of_int_eq_iff [of 5 "2 * j", where 'a = real] by simp
      then show False by presburger
    qed
    ultimately show "answer_index (quizData s ! currentQuestionIndex s) \<noteq> of_int j" by simp
  qed
  have "currentQuestionIndex s < length (quizData s)" using h(1,2) by (cases "quizData s") simp_all
  from showAnswerFeedback_Inr [OF this] obtain s' where f: "showAnswerFeedback 2 s = Inr s'"
    by blast
  have n: "normalizeQuestions wholeNumber (JArr [mcq ''A'' 7]) 5 = Inr [served7]"
    by (simp add: normalizeQuestions_def server_defs mcq_def served7_def)
  have n1: "normalizeItem wholeNumber (mcq ''A'' 7) = Inr served7" by (rule served7_normalized)
  have n2: "normalizeItem wholeNumber aliasItem = Inr sq2"
    by (simp add: server_defs aliasItem_def sq2_def)
  have n3: "normalizeItem wholeNumber answerItem = Inr sq3"
    by (simp add: server_defs answerItem_def sq3_def)
  have n4: "normalizeItem wholeNumber twoOptions = Inr sq4"
    by (simp add: server_defs twoOptions_def sq4_def padOptions.simps)
  have g: "getProp (mcq ''A'' 7) ''answer_index'' = JNum 7"
    "\<not> isNum (getProp aliasItem ''answer_index'')" "getProp aliasItem ''answerIndex'' = JNum 2"
    "\<not> isNum (getProp correctItem ''answer_index'')" "\<not> isNum (getProp correctItem ''answerIndex'')"
    "getProp correctItem ''correct'' = JNum (- 1)"
    "\<not> isNum (getProp twoOptions ''answer_index'')" "\<not> isNum (getProp twoOptions ''answerIndex'')"
    "\<not> isNum (getProp twoOptions ''correct'')"
    "\<not> isNum (getProp answerItem ''answer_index'')" "\<not> isNum (getProp answerItem ''answerIndex'')"
    "getProp answerItem ''answer'' = JStr (str ''b'')"
    "\<forall>a. getProp twoOptions ''answer'' = JStr a \<longrightarrow> a \<notin> set (options sq4)"
    by (simp_all add: mcq_def aliasItem_def correctItem_def twoOptions_def answerItem_def)
  have ix: "arrayIndexOf (options sq3) (str ''b'') = Some 1"
    by (simp add: sq3_def str_def)
  from correctIndex_clamped [where evs = startHalf and ov = plainPage and sec = Home
      and ?q1.0 = "mcq ''A'' 7" and ?n1.0 = 7 and t = "str ''Q''"
      and ?q2.0 = aliasItem and ?n2.0 = 2 and ?q3.0 = correctItem and ?n3.0 = "- 1"
      and ?q4.0 = twoOptions and k = 7 and sel = 2 and s = s and s' = s'
      and fmt = wholeNumber and its = "[mcq ''A'' 7]" and count = 5 and qs = "[served7]"
      and ?it1.0 = "mcq ''A'' 7" and ?sq1.0 = served7 and ?m1.0 = 7
      and ?it2.0 = aliasItem and ?sq2.0 = sq2 and ?m2.0 = 2
      and ?it3.0 = answerItem and ?sq3.0 = sq3 and a = "str ''b''" and i = 1
      and ?it4.0 = twoOptions and ?sq4.0 = sq4]
    h frac f n n1 n2 n3 n4 g ix
  have r: "answer_index (clientQuestion aliasItem (str ''Q'')) = clamp03 2"
    "answer_index (clientQuestion correctItem (str ''Q'')) = clamp03 (- 1)"
    "answer_index (clientQuestion twoOptions (str ''Q'')) = 0"
    "score s' = score s" "answer_index served7 = 7"
    "answer_index sq2 = 2" "answer_index sq3 = 1" "answer_index sq4 = 0"
    by (simp_all add: s_def)
  have c: "answer_index (clientQuestion (mcq ''A'' 7) (str ''A'')) = 3"
    by (simp add: clientQuestion_first [OF g(1)] clamp03_def)
  from r c h f n n2 n3 n4 show ?thesis
    unfolding s_def [symmetric] by (auto simp: clamp03_def)
qed

text \<open>C2 as stated fails: for an item with the answer index 7 the server's
  \<open>normalizeQuestions\<close> returns the index 7, and for one with the index 5/2 the client
  stores 5/2.\<close>

theorem server_index_counterexample:
  "normalizeQuestions wholeNumber (JArr [mcq ''A'' 7]) 5
     = Inr [\<lparr>question = str ''A'', options = [str ''a'', str ''b'', str ''c'', str ''d''],
             answer_index = 7, explanation = []\<rparr>]
   \<and> map answer_index (quizData (run startHalf (initialSession plainPage Home))) = [5 / 2]"
proof -
  have "normalizeQuestions wholeNumber (JArr [mcq ''A'' 7]) 5
     = Inr [\<lparr>question = str ''A'', options = [str ''a'', str ''b'', str ''c'', str ''d''],
             answer_index = 7, explanation = []\<rparr>]"
    by (simp add: normalizeQuestions_def server_defs mcq_def)
  moreover have "map answer_index (quizData (run startHalf (initialSession plainPage Home))) = [5 / 2]"
    by (simp add: startHalf_def client_defs payload_def mcq_def)
  ultimately show ?thesis by blast
qed

text \<open>
  C7. When a fetch round appends no question, the session is what it was. If the
  session has no question the round returns false, and the start of a quiz stops there
  (nothing is rendered, no timer is started); for further questions the session stays
  as it is.
\<close>

theorem zero_accepted:
  assumes f: "fetchAndAppendQuestions r s = (ok, s')"
    and len: "length (quizData s') = length (quizData s)"
  shows "s' = s
    \<and> (quizData s = [] \<longrightarrow> \<not> ok \<and> fetchDone FromInit r s = s)
    \<and> fetchDone FromMore r s = s"
proof -
  have eq: "s' = s" by (rule fetchAndAppendQuestions_same [OF f len])
  have f': "fetchAndAppendQuestions r s = (ok, s)" using f eq by simp
  show ?thesis
  proof (intro conjI impI)
    show "s' = s" by (rule eq)
    show "fetchDone FromMore r s = s" by (simp add: fetchDone_def f')
    assume e: "quizData s = []"
    show "\<not> ok" by (rule fetchAndAppendQuestions_hard [OF f' e])
    then show "fetchDone FromInit r s = s" by (simp add: fetchDone_def f')
  qed
qed

theorem zero_accepted_witness:
  "fetchAndAppendQuestions (payload [mcq ''A '' 2]) oneQuestion = (True, oneQuestion)
   \<and> fetchDone FromMore (payload [mcq ''A '' 2]) oneQuestion = oneQuestion
   \<and> score oneQuestion = 1
   \<and> quizData started = []
   \<and> fetchAndAppendQuestions (payload [mcq '' '' 0]) started = (False, started)
   \<and> fetchDone FromInit (payload [mcq '' '' 0]) started = started"
proof -
  have f: "fetchAndAppendQuestions (payload [mcq ''A '' 2]) oneQuestion = (True, oneQuestion)"
    by (simp add: oneQuestion_eq fetchAndAppendQuestions_def payload_def mcq_def nullish_def orElse_def trim_def str_def isSpace_def isDup_def Let_def)
  have g: "fetchAndAppendQuestions (payload [mcq '' '' 0]) started = (False, started)"
    by (simp add: started_def client_defs payload_def mcq_def)
  have e: "quizData started = []"
    by (simp add: started_def client_defs)
  from zero_accepted [OF f refl] zero_accepted [OF g refl] e f g show ?thesis
    by (simp add: oneQuestion_eq)
qed

text \<open>
  C10, as the code has it. Feedback is total: on a session whose current question
  exists, whatever its options, its answer index and the elements of class
  \<^verbatim>\<open>option-btn\<close> on the page, \<open>showAnswerFeedback\<close> returns; it adds one to the score
  exactly when the selected index is the question's answer index; it keeps the
  elements there are, disables each of them, marks as correct the one at the answer
  index and as incorrect the one at a selected index that differs from it, where
  there is one, and only disables them where neither index has an element.
  Rendering is not total: \<open>renderQuestion\<close> raises a TypeError exactly when an option
  cannot be converted to a string, which is the case for an object with a property
  \<^verbatim>\<open>toString\<close> and for an array that holds such an option, and for no other value.
  It makes, for each option up to the first such one, the option's button and after
  it the elements of class \<^verbatim>\<open>option-btn\<close> that the option's markup brings: one
  button per option when all options convert and none brings such an element, however
  many options there are.
\<close>

theorem feedback_total:
  assumes "currentQuestionIndex s < length (quizData s)"
  shows "(\<exists>s'. showAnswerFeedback sel s = Inr s'
           \<and> score s' = (if of_int sel = answer_index (quizData s ! currentQuestionIndex s)
                          then Suc (score s) else score s)
           \<and> length (buttons s') = length (buttons s)
           \<and> (\<forall>i < length (buttons s). buttons s' ! i = (buttons s ! i)
                \<lparr>correct := correct (buttons s ! i)
                     \<or> answer_index (quizData s ! currentQuestionIndex s) = real i,
                 incorrect := incorrect (buttons s ! i)
                     \<or> (of_int sel \<noteq> answer_index (quizData s ! currentQuestionIndex s)
                         \<and> sel = int i),
                 inert := True\<rparr>)
           \<and> (buttonAt (buttons s) (answer_index (quizData s ! currentQuestionIndex s)) = None
                \<and> buttonAt (buttons s) (of_int sel) = None
               \<longrightarrow> buttons s' = map (\<lambda>b. b\<lparr>inert := True\<rparr>) (buttons s)))
        \<and> fst (renderQuestion s)
            = (if stringifyAll (options (quizData s ! currentQuestionIndex s)) then None
               else Some TypeError)
        \<and> buttons (snd (renderQuestion s))
            = concat (map (rendered (page s))
                (takeWhile stringifies (options (quizData s ! currentQuestionIndex s))))
        \<and> (stringifyAll (options (quizData s ! currentQuestionIndex s))
            \<and> (\<forall>opt \<in> set (options (quizData s ! currentQuestionIndex s)).
                  optionBtns (html (page s) opt) = []) \<longrightarrow>
             length (buttons (snd (renderQuestion s)))
               = length (options (quizData s ! currentQuestionIndex s)))
        \<and> stringifies JNull \<and> stringifies (JBool b) \<and> stringifies (JNum n)
        \<and> stringifies (JStr x)
        \<and> stringifies (JObj kvs) = (''toString'' \<notin> fst ` set kvs)
        \<and> stringifies (JArr xs) = list_all stringifies xs"
proof -
  from showAnswerFeedback_Inr [OF assms] obtain s' where r: "showAnswerFeedback sel s = Inr s'"
    by blast
  let ?opts = "options (quizData s ! currentQuestionIndex s)"
  have made: "buttons (snd (renderQuestion s))
      = concat (map (rendered (page s)) (takeWhile stringifies ?opts))"
    by (rule renderQuestion_made [OF assms])
  show ?thesis
  proof (intro conjI impI)
    show "\<exists>s'. showAnswerFeedback sel s = Inr s'
           \<and> score s' = (if of_int sel = answer_index (quizData s ! currentQuestionIndex s)
                          then Suc (score s) else score s)
           \<and> length (buttons s') = length (buttons s)
           \<and> (\<forall>i < length (buttons s). buttons s' ! i = (buttons s ! i)
                \<lparr>correct := correct (buttons s ! i)
                     \<or> answer_index (quizData s ! currentQuestionIndex s) = real i,
                 incorrect := incorrect (buttons s ! i)
                     \<or> (of_int sel \<noteq> answer_index (quizData s ! currentQuestionIndex s)
                         \<and> sel = int i),
                 inert := True\<rparr>)
           \<and> (buttonAt (buttons s) (answer_index (quizData s ! currentQuestionIndex s)) = None
                \<and> buttonAt (buttons s) (of_int sel) = None
               \<longrightarrow> buttons s' = map (\<lambda>b. b\<lparr>inert := True\<rparr>) (buttons s))"
    proof (intro exI [of _ s'] conjI impI allI)
      show "showAnswerFeedback sel s = Inr s'" by (rule r)
      show "score s' = (if of_int sel = answer_index (quizData s ! currentQuestionIndex s)
                          then Suc (score s) else score s)"
        by (rule showAnswerFeedback_score [OF r])
      show "length (buttons s') = length (buttons s)"
        by (rule showAnswerFeedback_fields(7) [OF r])
    next
      fix i assume "i < length (buttons s)"
      then show "buttons s' ! i = (buttons s ! i)
                \<lparr>correct := correct (buttons s ! i)
                     \<or> answer_index (quizData s ! currentQuestionIndex s) = real i,
                 incorrect := incorrect (buttons s ! i)
                     \<or> (of_int sel \<noteq> answer_index (quizData s ! currentQuestionIndex s)
                         \<and> sel = int i),
                 inert := True\<rparr>"
        by (rule showAnswerFeedback_marks [OF r])
    next
      assume "buttonAt (buttons s) (answer_index (quizData s ! currentQuestionIndex s)) = None
                \<and> buttonAt (buttons s) (of_int sel) = None"
      then show "buttons s' = map (\<lambda>b. b\<lparr>inert := True\<rparr>) (buttons s)"
        using showAnswerFeedback_skip [OF r] by simp
    qed
  next
    show "fst (renderQuestion s) = (if stringifyAll ?opts then None else Some TypeError)"
    proof (cases "stringifyAll ?opts")
      case True
      with assms have "\<exists>s'. renderQuestion s = (None, s')"
        by (intro renderQuestion_None) simp
      with True show ?thesis by auto
    next
      case False
      from renderQuestion_raises [OF assms False] False show ?thesis by auto
    qed
  next
    show "buttons (snd (renderQuestion s))
      = concat (map (rendered (page s)) (takeWhile stringifies ?opts))"
      by (rule made)
  next
    assume a: "stringifyAll ?opts \<and> (\<forall>opt \<in> set ?opts. optionBtns (html (page s) opt) = [])"
    then have t: "takeWhile stringifies ?opts = ?opts"
      by (simp add: stringifyAll_iff list_all_iff)
    have m: "map (rendered (page s)) ?opts = map (\<lambda>opt. [freshButton]) ?opts"
      using a by (simp add: rendered_def)
    show "length (buttons (snd (renderQuestion s))) = length ?opts"
      unfolding made t m concat_singletons by simp
  next
    show "stringifies JNull" "stringifies (JBool b)" "stringifies (JNum n)" "stringifies (JStr x)"
      "stringifies (JObj kvs) = (''toString'' \<notin> fst ` set kvs)"
      "stringifies (JArr xs) = list_all stringifies xs"
      by (simp_all add: stringifyAll_iff)
  qed
qed

theorem feedback_total_witness:
  "currentQuestionIndex shortSession < length (quizData shortSession)
   \<and> stringifyAll (options (quizData shortSession ! currentQuestionIndex shortSession))
   \<and> (\<exists>s'. showAnswerFeedback 3 shortSession = Inr s' \<and> score s' = 1
          \<and> buttons s' = [freshButton\<lparr>inert := True\<rparr>, freshButton\<lparr>inert := True\<rparr>])
   \<and> fst (renderQuestion shortSession) = None
   \<and> length (buttons (snd (renderQuestion shortSession))) = 2
   \<and> currentQuestionIndex markupSession < length (quizData markupSession)
   \<and> buttons (snd (renderQuestion markupSession)) = [freshButton, freshButton, freshButton]"
proof -
  have h: "currentQuestionIndex shortSession < length (quizData shortSession)"
    by (simp add: shortSession_def initialSession_def)
  have st: "stringifyAll (options (quizData shortSession ! currentQuestionIndex shortSession))
      \<and> (\<forall>opt \<in> set (options (quizData shortSession ! currentQuestionIndex shortSession)).
                  optionBtns (html (page shortSession) opt) = [])"
    by (simp add: shortSession_def initialSession_def plainPage_def)
  note ft = feedback_total [OF h, of 3]
  from ft [THEN conjunct1] obtain s1 where
    a: "showAnswerFeedback 3 shortSession = Inr s1"
      "score s1 = (if of_int 3 = answer_index (quizData shortSession ! currentQuestionIndex shortSession)
                    then Suc (score shortSession) else score shortSession)"
      "buttonAt (buttons shortSession)
          (answer_index (quizData shortSession ! currentQuestionIndex shortSession)) = None
        \<and> buttonAt (buttons shortSession) (of_int 3) = None
       \<longrightarrow> buttons s1 = map (\<lambda>b. b\<lparr>inert := True\<rparr>) (buttons shortSession)"
    by blast
  have b: "fst (renderQuestion shortSession) = None"
      "length (buttons (snd (renderQuestion shortSession)))
         = length (options (quizData shortSession ! currentQuestionIndex shortSession))"
    using ft [THEN conjunct2, THEN conjunct1]
      ft [THEN conjunct2, THEN conjunct2, THEN conjunct2, THEN conjunct1] st
    by simp_all
  have "score s1 = 1" using a(2) by (simp add: shortSession_def initialSession_def)
  moreover have "buttons s1 = [freshButton\<lparr>inert := True\<rparr>, freshButton\<lparr>inert := True\<rparr>]"
    using a(3) by (simp add: shortSession_def initialSession_def buttonAt_def)
  moreover have "length (buttons (snd (renderQuestion shortSession))) = 2"
    using b(2) by (simp add: shortSession_def initialSession_def)
  moreover have m: "currentQuestionIndex markupSession < length (quizData markupSession)"
    by (simp add: markupSession_def initialSession_def)
  moreover have "buttons (snd (renderQuestion markupSession)) = [freshButton, freshButton, freshButton]"
    using feedback_total [OF m, of 0]
    by (simp add: markupSession_def initialSession_def markupPage_def rendered_def str_def)
  ultimately show ?thesis using h st a(1) b(1) by blast
qed

text \<open>C10 as stated fails: a quiz started with a question one of whose options is an
  object with a property \<^verbatim>\<open>toString\<close> holds that question, and rendering it raises a
  TypeError after the first button; no timer runs.\<close>

theorem render_counterexample:
  "length (quizData (run startUnprintable (initialSession plainPage Home))) = 1
   \<and> currentQuestionIndex (run startUnprintable (initialSession plainPage Home)) = 0
   \<and> fst (renderQuestion (run startUnprintable (initialSession plainPage Home))) = Some TypeError
   \<and> buttons (run startUnprintable (initialSession plainPage Home)) = [freshButton]
   \<and> intervals (run startUnprintable (initialSession plainPage Home)) = []"
  by (simp add: startUnprintable_def unprintable_def client_defs payload_def)

text \<open>
  C3. The second variant of the server pads a copy of the options and returns the
  options themselves: an item with two options keeps two. The first variant pads the
  same item to four.
\<close>

theorem options_not_padded:
  "generateQuizQuestions2 fmt [twoOptions] 5
     = Inr [\<lparr>question = str ''Q'', options = [str ''a'', str ''b''],
             answer_index = 0, explanation = []\<rparr>]
   \<and> normalizeQuestions fmt (JArr [twoOptions]) 5
     = Inr [\<lparr>question = str ''Q'', options = [str ''a'', str ''b'', str ''Option'', str ''Option''],
             answer_index = 0, explanation = []\<rparr>]"
  by (simp add: generateQuizQuestions2_def normalizeItem2_def normalizeQuestions_def
      server_defs twoOptions_def padOptions.simps popTo4.simps)

text \<open>
  C6, as the code has it. When the first variant's extractor locates no payload in
  the provider's text (no opening marker, no closing marker, or a text between them
  that does not parse) it returns null: no parse exception leaves it. If the text is
  not empty and does not parse as a whole either, generation fails with the error
  that carries the first 2000 code units of the text; it returns no empty list. For
  an empty text generation fails with the error of a provider that answered nothing.
  When the second variant's extractor locates no payload (no opening bracket, or a
  cleaned text from it through the last closing bracket that does not parse) it
  returns null, and the handler answers with the error and the first 2000 code units
  of the text, null for an empty text. The empty list is what \<open>normalizeQuestions\<close>
  returns for a value that is no array.
\<close>

theorem payload_failure:
  "(nothingLocated parse t1 \<longrightarrow> extractJsonFromText parse t1 = JNull)
   \<and> (responseText \<noteq> [] \<and> nothingLocated parse responseText \<and> parse responseText = None \<longrightarrow>
      generateWithGemini parse fmt responseText count
          = Inl (FailedToParse (Some (slice responseText 0 2000))))
   \<and> generateWithGemini parse fmt [] count = Inl NoModelResponse
   \<and> (nothingLocated2 parse rawText \<longrightarrow>
      extractJsonArrayFromText parse rawText = JNull
      \<and> generateQuiz2 parse fmt rawText count
          = Inl (FailedToParse (if rawText = [] then None else Some (slice rawText 0 2000))))
   \<and> (\<not> isArray v \<longrightarrow> normalizeQuestions fmt v count = Inr [])"
proof (intro conjI impI)
  assume "nothingLocated parse t1"
  then show "extractJsonFromText parse t1 = JNull" by (rule nothingLocated_null)
next
  assume a: "responseText \<noteq> [] \<and> nothingLocated parse responseText \<and> parse responseText = None"
  then have e: "extractJsonFromText parse responseText = JNull"
    by (simp add: nothingLocated_null)
  from a have "parsedPayload parse responseText = JNull"
    by (simp add: parsedPayload_def e)
  with a show "generateWithGemini parse fmt responseText count
          = Inl (FailedToParse (Some (slice responseText 0 2000)))"
    by (simp add: generateWithGemini_def questionsOf_def nullish_def)
next
  show "generateWithGemini parse fmt [] count = Inl NoModelResponse"
    by (simp add: generateWithGemini_def)
next
  assume a: "nothingLocated2 parse rawText"
  then show e: "extractJsonArrayFromText parse rawText = JNull"
    by (rule nothingLocated2_null)
  then show "generateQuiz2 parse fmt rawText count
          = Inl (FailedToParse (if rawText = [] then None else Some (slice rawText 0 2000)))"
    by (simp add: generateQuiz2_def)
next
  assume "\<not> isArray v"
  then show "normalizeQuestions fmt v count = Inr []" by (rule normalizeQuestions_nonarray)
qed

theorem payload_failure_witness:
  "badFence \<noteq> [] \<and> nothingLocated jsonParse badFence \<and> jsonParse badFence = None
   \<and> extractJsonFromText jsonParse badFence = JNull
   \<and> generateWithGemini jsonParse wholeNumber badFence 5 = Inl (FailedToParse (Some badFence))
   \<and> nothingLocated2 jsonParse badFence
   \<and> generateQuiz2 jsonParse wholeNumber badFence 5 = Inl (FailedToParse (Some badFence))
   \<and> generateWithGemini jsonParse wholeNumber [] 5 = Inl NoModelResponse
   \<and> normalizeQuestions wholeNumber JNull 5 = Inr []"
proof -
  have 1: "badFence \<noteq> []" by (simp add: badFence_def str_def)
  have 2: "nothingLocated jsonParse badFence"
    by (simp add: nothingLocated_def indexOf_def lastIndexOf_def startsWith_def jsonParse_def wrapped_def
        quizText_def badFence_def str_def slice_def trim_def isSpace_def)
  have 3: "jsonParse badFence = None"
    by (simp add: jsonParse_def wrapped_def quizText_def badFence_def str_def)
  have 4: "nothingLocated2 jsonParse badFence"
    by (simp add: nothingLocated2_def indexOf_def startsWith_def badFence_def str_def)
  have 5: "slice badFence 0 2000 = badFence"
    by (simp add: slice_def badFence_def str_def)
  from payload_failure [of jsonParse badFence badFence wholeNumber 5 badFence JNull] 1 2 3 4 5
  show ?thesis by simp
qed

text \<open>C6 as stated fails: for a refusal the result is the error, not the empty list.\<close>

theorem no_payload_counterexample:
  "generateWithGemini jsonParse wholeNumber refusal 5 = Inl (FailedToParse (Some refusal))"
  by (simp add: generateWithGemini_def parsedPayload_def questionsOf_def extractJsonFromText_def
      indexOf_def lastIndexOf_def startsWith_def jsonParse_def wrapped_def quizText_def refusal_def str_def
      nullish_def slice_def Let_def)

text \<open>
  C8, as the code has it. The second variant's extractor takes the text from the first
  \<^verbatim>\<open>[\<close> through the last \<^verbatim>\<open>]\<close>, whatever stands around it (prose without these
  brackets, a wrapper object with any key), and parses it cleaned; the handler goes on
  with the array parsed. Cleaning makes the result independent of curly quotes (the
  text with its curly quotes straightened gives the same result, and no curly quote
  is left), of a fence marker that follows text without backticks (\<^verbatim>\<open>```json\<close>, or
  \<^verbatim>\<open>```\<close> with no \<^verbatim>\<open>json\<close> after it), and of a comma that stands before optional
  white space and a closing bracket or brace, after a character that is no white
  space, no comma and none of the characters of the marker; a text with no backtick,
  curly quote, comma, carriage return or line feed is only trimmed. The first
  variant's extractor takes what stands between the first \<^verbatim>\<open>```json\<close> and the last
  \<^verbatim>\<open>```\<close>, where no other backtick stands around them, and parses it trimmed, as
  it is; \<open>generateWithGemini\<close> keeps a truthy result of the extractor, takes the
  parsed whole text otherwise, and goes on with a bare array or with the array under
  the key \<^verbatim>\<open>questions\<close> of an object, and fails for an object without that key.
\<close>

theorem payload_located:
  "(91 \<notin> set a \<and> 93 \<notin> set b \<longrightarrow>
      extractJsonArrayFromText parse (a @ (91 # mid @ [93]) @ b)
        = (case parse (cleanJson (91 # mid @ [93])) of Some v \<Rightarrow> v | None \<Rightarrow> JNull))
   \<and> (extractJsonArrayFromText parse t2 = JArr its2 \<longrightarrow>
        generateQuiz2 parse fmt t2 count = generateQuizQuestions2 fmt its2 count)
   \<and> extractJsonArrayFromText parse (map straight t) = extractJsonArrayFromText parse t
   \<and> set (cleanJson s) \<inter> {8216, 8217, 8220, 8221} = {}
   \<and> (96 \<notin> set x1 \<longrightarrow> cleanJson (x1 @ str ''```json'' @ y1) = cleanJson (x1 @ y1))
   \<and> (96 \<notin> set x2 \<and> \<not> startsWith (str ''json'') y2 \<longrightarrow>
        cleanJson (x2 @ str ''```'' @ y2) = cleanJson (x2 @ y2))
   \<and> (\<not> isSpace d \<and> d \<noteq> 44 \<and> d \<notin> set (str ''```json'') \<and> list_all isSpace w
        \<and> (c = 125 \<or> c = 93) \<longrightarrow>
        cleanJson (x3 @ d # 44 # w @ c # rest) = cleanJson (x3 @ d # w @ c # rest))
   \<and> (set s4 \<inter> {96, 8216, 8217, 8220, 8221, 44, 13, 10} = {} \<longrightarrow> cleanJson s4 = trim s4)
   \<and> (96 \<notin> set a' \<and> 96 \<notin> set b' \<longrightarrow>
      extractJsonFromText parse (a' @ str ''```json'' @ p @ str ''```'' @ b')
        = (case parse (trim p) of Some v \<Rightarrow> v | None \<Rightarrow> JNull))
   \<and> (truthy (extractJsonFromText parse t3) \<longrightarrow>
        parsedPayload parse t3 = extractJsonFromText parse t3)
   \<and> (\<not> truthy (extractJsonFromText parse t4) \<and> parse t4 = Some v4 \<longrightarrow>
        parsedPayload parse t4 = v4)
   \<and> (t5 \<noteq> [] \<and> parsedPayload parse t5 = JArr its5 \<longrightarrow>
        generateWithGemini parse fmt t5 count = normalizeQuestions fmt (JArr its5) count)
   \<and> (t6 \<noteq> [] \<and> parsedPayload parse t6 = JObj kvs6
        \<and> map_of kvs6 ''questions'' = Some (JArr its6) \<longrightarrow>
        generateWithGemini parse fmt t6 count = normalizeQuestions fmt (JArr its6) count)
   \<and> (t7 \<noteq> [] \<and> parsedPayload parse t7 = JObj kvs7 \<and> map_of kvs7 ''questions'' = None \<longrightarrow>
        generateWithGemini parse fmt t7 count = Inl (FailedToParse (Some (slice t7 0 2000))))"
proof (intro conjI impI)
  assume "91 \<notin> set a \<and> 93 \<notin> set b"
  then show "extractJsonArrayFromText parse (a @ (91 # mid @ [93]) @ b)
        = (case parse (cleanJson (91 # mid @ [93])) of Some v \<Rightarrow> v | None \<Rightarrow> JNull)"
    using extractJsonArray_located [of a b parse mid] by blast
next
  assume "extractJsonArrayFromText parse t2 = JArr its2"
  then show "generateQuiz2 parse fmt t2 count = generateQuizQuestions2 fmt its2 count"
    by (simp add: generateQuiz2_def)
next
  show "extractJsonArrayFromText parse (map straight t) = extractJsonArrayFromText parse t"
    by (rule extract_straight)
next
  show "set (cleanJson s) \<inter> {8216, 8217, 8220, 8221} = {}" by (rule cleanJson_no_curly)
next
  assume "96 \<notin> set x1"
  then show "cleanJson (x1 @ str ''```json'' @ y1) = cleanJson (x1 @ y1)"
    by (rule cleanJson_json)
next
  assume "96 \<notin> set x2 \<and> \<not> startsWith (str ''json'') y2"
  then show "cleanJson (x2 @ str ''```'' @ y2) = cleanJson (x2 @ y2)"
    using cleanJson_ticks [of x2 y2] by blast
next
  assume "\<not> isSpace d \<and> d \<noteq> 44 \<and> d \<notin> set (str ''```json'') \<and> list_all isSpace w
        \<and> (c = 125 \<or> c = 93)"
  then show "cleanJson (x3 @ d # 44 # w @ c # rest) = cleanJson (x3 @ d # w @ c # rest)"
    using cleanJson_comma [of d w c x3 rest] by blast
next
  assume "set s4 \<inter> {96, 8216, 8217, 8220, 8221, 44, 13, 10} = {}"
  then show "cleanJson s4 = trim s4" by (rule cleanJson_plain)
next
  assume "96 \<notin> set a' \<and> 96 \<notin> set b'"
  then show "extractJsonFromText parse (a' @ str ''```json'' @ p @ str ''```'' @ b')
        = (case parse (trim p) of Some v \<Rightarrow> v | None \<Rightarrow> JNull)"
    using extractJson_fenced [of a' b' parse p] by blast
next
  assume "truthy (extractJsonFromText parse t3)"
  then show "parsedPayload parse t3 = extractJsonFromText parse t3"
    by (simp add: parsedPayload_def)
next
  assume "\<not> truthy (extractJsonFromText parse t4) \<and> parse t4 = Some v4"
  then show "parsedPayload parse t4 = v4" by (simp add: parsedPayload_def)
next
  assume "t5 \<noteq> [] \<and> parsedPayload parse t5 = JArr its5"
  then show "generateWithGemini parse fmt t5 count = normalizeQuestions fmt (JArr its5) count"
    by (simp add: generateWithGemini_def questionsOf_def)
next
  assume "t6 \<noteq> [] \<and> parsedPayload parse t6 = JObj kvs6
        \<and> map_of kvs6 ''questions'' = Some (JArr its6)"
  then show "generateWithGemini parse fmt t6 count = normalizeQuestions fmt (JArr its6) count"
    by (simp add: generateWithGemini_def questionsOf_def nullish_def)
next
  assume "t7 \<noteq> [] \<and> parsedPayload parse t7 = JObj kvs7 \<and> map_of kvs7 ''questions'' = None"
  then show "generateWithGemini parse fmt t7 count = Inl (FailedToParse (Some (slice t7 0 2000)))"
    by (simp add: generateWithGemini_def questionsOf_def nullish_def)
qed

theorem payload_located_witness:
  "extractJsonArrayFromText jsonParse chatty = quizValue
   \<and> generateQuiz2 jsonParse wholeNumber chatty 5
       = Inr [\<lparr>question = str ''A'', options = [str ''a'', str ''b'', str ''c'', str ''d''],
               answer_index = 0, explanation = []\<rparr>]
   \<and> cleanJson (str ''[```json1]'') = str ''[1]''
   \<and> cleanJson (str ''[1```]'') = str ''[1]''
   \<and> cleanJson (str ''[1, ]'') = str ''[1 ]''
   \<and> cleanJson (str '' [1] '') = str ''[1]''
   \<and> extractJsonFromText jsonParse fencedQuiz = quizValue
   \<and> parsedPayload jsonParse fencedQuiz = quizValue
   \<and> parsedPayload jsonParse quizText = quizValue
   \<and> generateWithGemini jsonParse wholeNumber quizText 5
       = Inr [\<lparr>question = str ''A'', options = [str ''a'', str ''b'', str ''c'', str ''d''],
               answer_index = 0, explanation = []\<rparr>]
   \<and> generateWithGemini jsonParse wholeNumber (wrapped ''questions'') 5
       = Inr [\<lparr>question = str ''A'', options = [str ''a'', str ''b'', str ''c'', str ''d''],
               answer_index = 0, explanation = []\<rparr>]
   \<and> generateWithGemini jsonParse wholeNumber (wrapped ''quiz'') 5
       = Inl (FailedToParse (Some (wrapped ''quiz'')))"
proof -
  let ?served = "[\<lparr>question = str ''A'', options = [str ''a'', str ''b'', str ''c'', str ''d''],
               answer_index = 0 :: real, explanation = [] :: jsstring\<rparr>]"
  have a: \<open>91 \<notin> set (str ''Sure! {"quiz": '') \<and> 93 \<notin> set (str ''} Enjoy.'')\<close>
    by (simp add: str_def)
  have q: "quizValue = JArr (elems quizValue)" by (simp add: quizValue_def)
  have e2: "extractJsonArrayFromText jsonParse chatty = JArr (elems quizValue)"
    using extract_chatty q by simp
  have g2: "generateQuizQuestions2 wholeNumber (elems quizValue) 5 = Inr ?served"
    by (simp add: generateQuizQuestions2_def normalizeItem2_def server_defs quizValue_def)
  have n: "normalizeQuestions wholeNumber (JArr (elems quizValue)) 5 = Inr ?served"
    by (simp add: normalizeQuestions_def server_defs quizValue_def)
  have x1: "96 \<notin> set (str ''['')" by (simp add: str_def)
  have x2: "96 \<notin> set (str ''[1'') \<and> \<not> startsWith (str ''json'') (str '']'')"
    by (simp add: str_def startsWith_def)
  have x3: "\<not> isSpace 49 \<and> (49 :: nat) \<noteq> 44 \<and> 49 \<notin> set (str ''```json'') \<and> list_all isSpace [32]
        \<and> ((93 :: nat) = 125 \<or> (93 :: nat) = 93)"
    by (simp add: isSpace_def str_def)
  have x4: "set (str '' [1] '') \<inter> {96, 8216, 8217, 8220, 8221, 44, 13, 10} = {}"
    by (simp add: str_def)
  have f: "96 \<notin> set (str ''Here: '') \<and> 96 \<notin> set (str '' Bye'')" by (simp add: str_def)
  have t3: "truthy (extractJsonFromText jsonParse fencedQuiz)"
    by (simp add: extract_fencedQuiz quizValue_def)
  have t4: "\<not> truthy (extractJsonFromText jsonParse quizText) \<and> jsonParse quizText = Some quizValue"
    by (simp add: extract_quizText jsonParse_quizText)
  have p4: "parsedPayload jsonParse quizText = quizValue"
    by (simp add: parsedPayload_def extract_quizText jsonParse_quizText)
  have t5: "quizText \<noteq> [] \<and> parsedPayload jsonParse quizText = JArr (elems quizValue)"
    using p4 q by (simp add: quizText_eq)
  have t6: "wrapped ''questions'' \<noteq> []
      \<and> parsedPayload jsonParse (wrapped ''questions'') = JObj [(''questions'', quizValue)]
      \<and> map_of [(''questions'', quizValue)] ''questions'' = Some (JArr (elems quizValue))"
    using q by (simp add: parsedPayload_def extract_wrapped jsonParse_wrapped wrapped_ne)
  have t7: "wrapped ''quiz'' \<noteq> []
      \<and> parsedPayload jsonParse (wrapped ''quiz'') = JObj [(''quiz'', quizValue)]
      \<and> map_of [(''quiz'', quizValue)] ''questions'' = None"
    by (simp add: parsedPayload_def extract_wrapped jsonParse_wrapped wrapped_ne)
  have sl: "slice (wrapped ''quiz'') 0 2000 = wrapped ''quiz''"
    by (simp add: slice_def wrapped_def quizText_eq str_def)
  have c1: "cleanJson (str ''[1]'') = str ''[1]''" "cleanJson (str ''[1 ]'') = str ''[1 ]''"
    "trim (str '' [1] '') = str ''[1]''"
    by (simp_all add: cleanJson_def str_def startsWith_def straightenQuotes_def isSpace_def trim_def)
  note pl = payload_located [where a = \<open>str ''Sure! {"quiz": ''\<close> and b = \<open>str ''} Enjoy.''\<close>
      and parse = jsonParse and fmt = wholeNumber and count = 5
      and ?t2.0 = chatty and ?its2.0 = "elems quizValue"
      and ?x1.0 = "str ''[''" and ?y1.0 = "str ''1]''"
      and ?x2.0 = "str ''[1''" and ?y2.0 = "str '']''"
      and ?x3.0 = "str ''[''" and d = 49 and w = "[32]" and c = 93 and rest = "[]"
      and ?s4.0 = "str '' [1] ''"
      and a' = "str ''Here: ''" and b' = "str '' Bye''"
      and ?t3.0 = fencedQuiz and ?t4.0 = quizText and ?v4.0 = quizValue
      and ?t5.0 = quizText and ?its5.0 = "elems quizValue"
      and ?t6.0 = "wrapped ''questions''" and ?kvs6.0 = "[(''questions'', quizValue)]"
      and ?its6.0 = "elems quizValue"
      and ?t7.0 = "wrapped ''quiz''" and ?kvs7.0 = "[(''quiz'', quizValue)]"]
  have r1: "extractJsonArrayFromText jsonParse chatty = quizValue"
    unfolding chatty_split
    using pl [where mid = \<open>str ''```json'' @ [123, 8220] @ str ''question'' @ [8221]
               @ str '':"A","options":["a","b","c","d",],"answer_index":0,},```''\<close>] a
    by (simp only: clean_chatty jsonParse_quizText option.case simp_thms)
  have r2: "generateQuiz2 jsonParse wholeNumber chatty 5 = Inr ?served"
    using pl e2 g2 by simp
  have r3: "cleanJson (str ''[```json1]'') = str ''[1]''"
    using pl x1 c1(1) by (simp add: str_def)
  have r4: "cleanJson (str ''[1```]'') = str ''[1]''"
    using pl x2 c1(1) by (simp add: str_def)
  have r5: "cleanJson (str ''[1, ]'') = str ''[1 ]''"
    using pl x3 c1(2) by (simp add: str_def)
  have r6: "cleanJson (str '' [1] '') = str ''[1]''"
    using pl x4 c1(3) by simp
  have tr: "trim (str '' '' @ quizText @ str '' '') = quizText"
    by (simp add: trim_def quizText_eq str_def isSpace_def)
  have fq: "fencedQuiz = str ''Here: '' @ str ''```json'' @ (str '' '' @ quizText @ str '' '')
      @ str ''```'' @ str '' Bye''"
    by (simp add: fencedQuiz_def str_def)
  have r0: "extractJsonFromText jsonParse fencedQuiz = quizValue"
    unfolding fq
    using pl [where p = "str '' '' @ quizText @ str '' ''"] f
    by (simp only: tr jsonParse_quizText option.case simp_thms)
  have r7: "parsedPayload jsonParse fencedQuiz = quizValue"
    using pl t3 extract_fencedQuiz by simp
  have r8: "generateWithGemini jsonParse wholeNumber quizText 5 = Inr ?served"
    using pl t5 n by simp
  have r9: "generateWithGemini jsonParse wholeNumber (wrapped ''questions'') 5 = Inr ?served"
    using pl t6 n by simp
  have r10: "generateWithGemini jsonParse wholeNumber (wrapped ''quiz'') 5
       = Inl (FailedToParse (Some (wrapped ''quiz'')))"
    using pl t7 sl by simp
  from r1 r2 r3 r4 r5 r6 r0 r7 p4 r8 r9 r10
  show ?thesis by (intro conjI)
qed

text \<open>C8 as stated fails in both variants. In the first, a trailing comma in the
  fenced array makes the extractor return null and generation fail. In the second,
  prose that holds a bracket before the array makes the extractor return null and the
  handler fail.\<close>

theorem tolerance_counterexample:
  "extractJsonFromText jsonParse trailingComma = JNull
   \<and> generateWithGemini jsonParse wholeNumber trailingComma 5 = Inl (FailedToParse (Some trailingComma))
   \<and> extractJsonArrayFromText jsonParse bracketProse = JNull
   \<and> generateQuiz2 jsonParse wholeNumber bracketProse 5 = Inl (FailedToParse (Some bracketProse))"
proof -
  have p: "jsonParse trailingComma = None"
    by (simp add: jsonParse_def wrapped_def quizText_def trailingComma_def str_def)
  have n: "trailingComma \<noteq> []" by (simp add: trailingComma_def str_def)
  have s: "slice trailingComma 0 2000 = trailingComma"
    by (simp add: slice_def trailingComma_def str_def)
  have 1: "generateWithGemini jsonParse wholeNumber trailingComma 5
      = Inl (FailedToParse (Some trailingComma))"
    by (simp add: generateWithGemini_def parsedPayload_def questionsOf_def extract_trailingComma
        p n s nullish_def)
  have n2: "bracketProse \<noteq> []" by (simp add: bracketProse_def str_def)
  have s2: "slice bracketProse 0 2000 = bracketProse"
    by (simp add: slice_def bracketProse_def quizText_eq str_def)
  have 2: "generateQuiz2 jsonParse wholeNumber bracketProse 5
      = Inl (FailedToParse (Some bracketProse))"
    by (simp add: generateQuiz2_def extract_bracketProse n2 s2)
  from extract_trailingComma 1 extract_bracketProse 2 show ?thesis by (intro conjI)
qed



text \<open>
  Beyond the claims: every question the first variant's \<open>normalizeQuestions\<close> returns
  has exactly four options.
\<close>

theorem options_four:
  assumes "normalizeQuestions fmt items count = Inr qs"
  shows "list_all (\<lambda>q. length (options q) = 4) qs"
proof (cases items)
  case (JArr its)
  with assms obtain ys where m: "mapE (normalizeItem fmt) its = Inr ys"
    and q: "qs = sliceTo (filter usable ys) count"
    by (auto simp: normalizeQuestions_def ebind_def split: sum.splits)
  have "list_all (\<lambda>q. length (options q) = 4) ys"
    by (rule mapE_all [OF m]) (rule normalizeItem_four)
  then have "\<forall>q \<in> set ys. length (options q) = 4" by (simp add: list_all_iff)
  moreover have "set qs \<subseteq> set ys"
    unfolding q sliceTo_def using set_take_subset [of _ "filter usable ys"] by (auto split: if_splits)
  ultimately show ?thesis by (auto simp: list_all_iff)
qed (use assms in \<open>simp_all add: normalizeQuestions_def\<close>)

theorem options_four_witness:
  "normalizeQuestions wholeNumber (JArr [twoOptions]) 5
     = Inr [\<lparr>question = str ''Q'', options = [str ''a'', str ''b'', str ''Option'', str ''Option''],
             answer_index = 0, explanation = []\<rparr>]
   \<and> length [str ''a'', str ''b'', str ''Option'', str ''Option''] = 4"
proof -
  have n: "normalizeQuestions wholeNumber (JArr [twoOptions]) 5
     = Inr [\<lparr>question = str ''Q'', options = [str ''a'', str ''b'', str ''Option'', str ''Option''],
             answer_index = 0, explanation = []\<rparr>]"
    by (simp add: normalizeQuestions_def server_defs twoOptions_def padOptions.simps)
  from options_four [OF n] n show ?thesis by simp
qed

end
